theory Spec2Isabelle
  imports Complex_Main "HOL-Library.Log_Nat"
begin

section \<open>The resilient dispatcher of the Zendesk client wrapper\<close>

text \<open>
  A shallow embedding of the class \<open>ZendeskClientWrapper\<close>: the retry loop of
  \<open>_createPromiseRequest\<close>, the backoff of \<open>_calcRetryAfter\<close>, the error shaping of
  \<open>_buildError\<close>, the attachment upload of \<open>_createAttachment\<close>, the request builder
  \<open>_buildAuthRequest\<close> and the constructor with \<open>_wrapPrototypeMethods\<close>.
  An Isabelle name cannot start with an underscore, so the leading underscore of the
  method names is dropped.
\<close>

subsection \<open>Constants\<close>

definition MAX_RETRIES :: nat where
  "MAX_RETRIES = 6"

definition RETRY_AFTER_DEFAULT :: int where
  "RETRY_AFTER_DEFAULT = 500"

definition RETRY_AFTER_MAX :: int where
  "RETRY_AFTER_MAX = 8000"

definition MAX_CONCURRENT :: nat where
  "MAX_CONCURRENT = 29"

subsection \<open>Error objects\<close>

text \<open>
  An error object as the dispatcher reads it: the optional property \<open>statusCode\<close>, the
  optional property \<open>retryAfter\<close> (the value of a \<open>retry-after\<close> header, a string holding
  seconds) and a message that tells one error object from another. The object literal
  \<open>{}\<close> has none of the three.
\<close>

record err =
  statusCode :: "int option"
  retryAfter :: "string option"
  message :: "string option"

definition empty_err :: err where
  "empty_err = \<lparr>statusCode = None, retryAfter = None, message = None\<rparr>"

text \<open>
  Truthiness of an optional string: \<open>undefined\<close> and the empty string are falsy,
  every other string (also \<open>"0"\<close>) is truthy.
\<close>

definition truthy :: "string option \<Rightarrow> bool" where
  "truthy v = (case v of None \<Rightarrow> False | Some s \<Rightarrow> s \<noteq> [])"

text \<open>
  \<open>err.statusCode >= 500\<close>: a comparison with \<open>undefined\<close> is false.
\<close>

definition status_ge :: "int option \<Rightarrow> int \<Rightarrow> bool" where
  "status_ge c n = (case c of None \<Rightarrow> False | Some k \<Rightarrow> n \<le> k)"

subsection \<open>Numbers\<close>

text \<open>
  A number of the language is a double: not a number, an infinity, or a finite value,
  kept here as the rational it denotes (the two zeros are one value; the timer and the
  message of the warning do not tell them apart). \<open>toDouble\<close> is the number value of a
  real: the nearest double, a tie going to the even significand, with 53 bits of
  significand, the least exponent of a subnormal and the infinity from \<open>2 ^ 1024\<close> on.
  \<open>exponent q\<close> is the integer part of the binary logarithm of a positive \<open>q\<close>.
\<close>

datatype number = NaN | PosInfinity | NegInfinity | Finite rat

definition exponent :: "rat \<Rightarrow> int" where
  "exponent q = (if 1 \<le> q then bitlen \<lfloor>q\<rfloor> - 1 else - bitlen (\<lceil>1 / q\<rceil> - 1))"

definition roundTiesToEven :: "rat \<Rightarrow> int" where
  "roundTiesToEven m =
     (let f = \<lfloor>m\<rfloor>; r = m - of_int f
      in if r < 1 / 2 then f else if 1 / 2 < r then f + 1 else if even f then f else f + 1)"

definition toDouble :: "rat \<Rightarrow> number" where
  "toDouble x =
     (if x = 0 then Finite 0
      else
        (let u = max (exponent \<bar>x\<bar> - 52) (- 1074);
             r = of_int (roundTiesToEven (\<bar>x\<bar> / 2 powi u)) * 2 powi u
         in if 2 ^ 1024 \<le> r then (if 0 < x then PosInfinity else NegInfinity)
            else Finite (sgn x * r)))"

text \<open>
  The product \<open>x * 1000\<close> of a number: the exact product, rounded to a double.
\<close>

definition times_1000 :: "number \<Rightarrow> number" where
  "times_1000 n =
     (case n of
        NaN \<Rightarrow> NaN
      | PosInfinity \<Rightarrow> PosInfinity
      | NegInfinity \<Rightarrow> NegInfinity
      | Finite x \<Rightarrow> toDouble (x * 1000))"

text \<open>
  The conversion of a string to a number, which the product \<open>err.retryAfter * 1000\<close>
  applies to the string first. A character is one code unit of the string; the value of
  a header holds code units below 256, of which the white space is tab, line feed,
  vertical tab, form feed, carriage return, space and no-break space. The string is
  trimmed; an empty string is 0; \<open>0x\<close>, \<open>0o\<close> and \<open>0b\<close> start an unsigned
  hexadecimal, octal or binary integer; otherwise the string is an optional sign and
  then \<open>Infinity\<close> or decimal digits with an optional fraction and an optional
  exponent; every other string is not a number. The value is rounded to a double.
\<close>

definition is_space :: "char \<Rightarrow> bool" where
  "is_space c = ((of_char c :: nat) \<in> {9, 10, 11, 12, 13, 32, 160})"

definition trim :: "string \<Rightarrow> string" where
  "trim s = rev (dropWhile is_space (rev (dropWhile is_space s)))"

definition digit_of :: "char \<Rightarrow> nat option" where
  "digit_of c =
     (let code = (of_char c :: nat)
      in if 48 \<le> code \<and> code \<le> 57 then Some (code - 48)
         else if 97 \<le> code \<and> code \<le> 102 then Some (code - 87)
         else if 65 \<le> code \<and> code \<le> 70 then Some (code - 55)
         else None)"

definition is_digit :: "nat \<Rightarrow> char \<Rightarrow> bool" where
  "is_digit radix c = (case digit_of c of None \<Rightarrow> False | Some d \<Rightarrow> d < radix)"

definition digits_value :: "nat \<Rightarrow> string \<Rightarrow> int" where
  "digits_value radix s = foldl (\<lambda>acc c. int radix * acc + int (the (digit_of c))) 0 s"

definition integerLiteral :: "nat \<Rightarrow> string \<Rightarrow> int option" where
  "integerLiteral radix s =
     (if s \<noteq> [] \<and> list_all (is_digit radix) s then Some (digits_value radix s) else None)"

definition signedInteger :: "string \<Rightarrow> int option" where
  "signedInteger s =
     (case s of
        [] \<Rightarrow> None
      | c # rest \<Rightarrow>
          if c = CHR ''+'' then integerLiteral 10 rest
          else if c = CHR ''-'' then map_option uminus (integerLiteral 10 rest)
          else integerLiteral 10 s)"

definition strDecimalLiteral :: "string \<Rightarrow> rat option" where
  "strDecimalLiteral s =
     (let ip = takeWhile (is_digit 10) s;
          r1 = dropWhile (is_digit 10) s;
          dotted = (r1 \<noteq> [] \<and> hd r1 = CHR ''.'');
          fp = (if dotted then takeWhile (is_digit 10) (tl r1) else []);
          r2 = (if dotted then dropWhile (is_digit 10) (tl r1) else r1);
          ex = (case r2 of
                  [] \<Rightarrow> Some 0
                | c # rest \<Rightarrow>
                    if c = CHR ''e'' \<or> c = CHR ''E'' then signedInteger rest else None)
      in if ip = [] \<and> fp = [] then None
         else case ex of
                None \<Rightarrow> None
              | Some k \<Rightarrow>
                  Some (of_int (digits_value 10 (ip @ fp)) * 10 powi (k - int (length fp))))"

definition nonDecimalRadix :: "string \<Rightarrow> nat option" where
  "nonDecimalRadix s =
     (case s of
        c0 # c1 # rest \<Rightarrow>
          if c0 = CHR ''0'' then
            (if c1 = CHR ''x'' \<or> c1 = CHR ''X'' then Some 16
             else if c1 = CHR ''o'' \<or> c1 = CHR ''O'' then Some 8
             else if c1 = CHR ''b'' \<or> c1 = CHR ''B'' then Some 2
             else None)
          else None
      | _ \<Rightarrow> None)"

definition signedDecimal :: "string \<Rightarrow> number" where
  "signedDecimal s =
     (let negative = (s \<noteq> [] \<and> hd s = CHR ''-'');
          signed = (s \<noteq> [] \<and> (hd s = CHR ''-'' \<or> hd s = CHR ''+''));
          body = (if signed then tl s else s)
      in if body = ''Infinity'' then (if negative then NegInfinity else PosInfinity)
         else case strDecimalLiteral body of
                None \<Rightarrow> NaN
              | Some v \<Rightarrow> toDouble (if negative then - v else v))"

definition toNumber :: "string \<Rightarrow> number" where
  "toNumber s =
     (let t = trim s
      in if t = [] then Finite 0
         else case nonDecimalRadix t of
                Some radix \<Rightarrow>
                  (case integerLiteral radix (drop 2 t) of
                     None \<Rightarrow> NaN
                   | Some n \<Rightarrow> toDouble (of_int n))
              | None \<Rightarrow> signedDecimal t)"

text \<open>
  The decimal numeral of a natural number, as a header gives a number of seconds.
\<close>

fun decimal :: "nat \<Rightarrow> string" where
  "decimal n =
     (if n < 10 then [char_of (48 + n)] else decimal (n div 10) @ [char_of (48 + n mod 10)])"

declare decimal.simps [simp del]

subsection \<open>The backoff: \<open>_calcRetryAfter\<close>\<close>

text \<open>
  The retry number is \<open>MAX_RETRIES - retries\<close> with \<open>0 \<le> retries \<le> MAX_RETRIES\<close>, a
  natural number (for a negative number the source gives a multiplier of 1, as for 0). On natural numbers the products and powers of the source are exact, and
  beyond the range of a double \<open>Math.pow\<close> gives \<open>Infinity\<close>, which \<open>Math.min\<close> caps
  at \<open>RETRY_AFTER_MAX\<close> as the unbounded integer is capped here.
\<close>

definition calcRetryAfter :: "nat \<Rightarrow> int" where
  "calcRetryAfter retryNumber =
     (let multiplier = max (2 ^ retryNumber) 1
      in min (RETRY_AFTER_DEFAULT * multiplier) RETRY_AFTER_MAX)"

subsection \<open>The completion callback of \<open>_createPromiseRequest\<close>\<close>

text \<open>
  What the callback \<open>(err, statusCode, result) => ...\<close> does with one completion, given
  the current value of the counter \<open>retries\<close>: it resolves the promise, rejects it, or
  decrements the counter and sets a timer that repeats the call. \<open>Retry d r\<close> carries
  the delay given to \<open>setTimeout\<close> and the decremented counter.
\<close>

datatype 'r action = Resolve 'r | Reject err | Retry number nat

definition retryable :: "err \<Rightarrow> bool" where
  "retryable e = (truthy (retryAfter e) \<or> status_ge (statusCode e) 500)"

definition callback :: "nat \<Rightarrow> err option \<Rightarrow> 'r \<Rightarrow> 'r action" where
  "callback retries error result =
     (case error of
        None \<Rightarrow> Resolve result
      | Some e \<Rightarrow>
          if retryable e \<and> retries > 0 then
            (let retryAfter_ms =
                   (if truthy (retryAfter e) then times_1000 (toNumber (the (retryAfter e)))
                    else Finite (of_int (calcRetryAfter (MAX_RETRIES - retries))))
             in Retry retryAfter_ms (retries - 1))
          else Reject e)"

subsection \<open>One unit of work\<close>

text \<open>
  A physical call \<open>method.apply(client, args)\<close> ends by invoking the callback once with
  an error (or none) and a result, or by an exception thrown where nothing catches it,
  after which the callback is never invoked. The transport is the function giving the
  end of the \<open>k\<close>-th physical call of the unit, \<open>k = 0\<close> being the first.
\<close>

datatype exn = NoClientError | TypeError | SyntaxError

datatype 'r completion = Invoked "err option" 'r | Threw exn

datatype 'r outcome = Resolved 'r | Rejected err | Pending exn

datatype event = Call nat | SetTimeout number | Warn number nat

function attempt :: "(nat \<Rightarrow> 'r completion) \<Rightarrow> nat \<Rightarrow> nat \<Rightarrow> event list \<times> 'r outcome" where
  "attempt tr retries k =
     (case tr k of
        Threw x \<Rightarrow> ([Call k], Pending x)
      | Invoked error result \<Rightarrow>
          (case callback retries error result of
             Resolve v \<Rightarrow> ([Call k], Resolved v)
           | Reject e \<Rightarrow> ([Call k], Rejected e)
           | Retry d retries' \<Rightarrow>
               (let (evs, out) = attempt tr retries' (Suc k)
                in (Call k # SetTimeout d # Warn d retries' # evs, out))))"
  by pat_completeness auto

termination
  by (relation "measure (\<lambda>(tr, retries, k). retries)")
    (auto simp: callback_def Let_def split: option.splits if_splits)

declare attempt.simps [simp del]

definition createPromiseRequest :: "(nat \<Rightarrow> 'r completion) \<Rightarrow> event list \<times> 'r outcome" where
  "createPromiseRequest tr = attempt tr MAX_RETRIES 0"

subsection \<open>Responses and the error shaping of \<open>_buildError\<close>\<close>

text \<open>
  A response as \<open>_buildError\<close> reads it: its status code and its headers, which may be
  missing. The response itself is \<open>undefined\<close> when the transport failed before any
  response arrived; reading a property of \<open>undefined\<close> throws a \<open>TypeError\<close>.
  \<open>retryAfterHeader\<close> is the condition
  \<open>response.headers && response.headers['retry-after']\<close>.
\<close>

record response =
  r_statusCode :: int
  r_headers :: "(string \<rightharpoonup> string) option"

definition retryAfterHeader :: "response \<Rightarrow> string option" where
  "retryAfterHeader r = (case r_headers r of None \<Rightarrow> None | Some h \<Rightarrow> h ''retry-after'')"

definition buildError :: "err option \<Rightarrow> response option \<Rightarrow> exn + err option" where
  "buildError error response =
     (case response of
        None \<Rightarrow> Inl TypeError
      | Some r \<Rightarrow>
          (let error1 =
                 (if error = None \<and> 400 \<le> r_statusCode r
                  then Some (empty_err\<lparr>statusCode := Some (r_statusCode r)\<rparr>)
                  else error)
           in if truthy (retryAfterHeader r)
              then Inr (Some ((case error1 of None \<Rightarrow> empty_err | Some e \<Rightarrow> e)
                              \<lparr>retryAfter := retryAfterHeader r\<rparr>))
              else Inr error1))"

subsection \<open>The request builder \<open>_buildAuthRequest\<close>\<close>

text \<open>
  The options of the wrapped client. The module that creates the client refuses a missing
  URL, username or token, so these three are strings; the password may be missing and the
  OAuth flag is read for its truth value.
\<close>

record options =
  remoteUri :: string
  username :: string
  password :: "string option"
  token :: string
  oauth :: bool

record auth =
  bearer :: "string option"
  user :: "string option"
  pass :: "string option"

datatype form_value = FormString string | FormBoolean bool | ReadStream string

record params =
  url :: string
  auth :: auth
  formData :: "(string \<times> form_value) list option"

definition buildAuthRequest :: "options \<Rightarrow> string \<Rightarrow> params" where
  "buildAuthRequest opts endpoint =
     \<lparr>url = remoteUri opts @ endpoint,
      auth =
        (if oauth opts then
           \<lparr>bearer = Some (token opts), user = None, pass = None\<rparr>
         else if truthy (password opts) then
           \<lparr>bearer = None, user = Some (username opts), pass = password opts\<rparr>
         else
           \<lparr>bearer = None, user = Some (username opts @ ''/token''), pass = Some (token opts)\<rparr>),
      formData = None\<rparr>"

subsection \<open>The attachment upload \<open>_createAttachment\<close>\<close>

datatype json =
    JNull | JBool bool | JNumber int | JString string | JArray "json list"
  | JObject "(string \<times> json) list"

text \<open>
  Modelled from the spec: the constant \<open>ARTICLE.ATTACHMENT\<close> of the module
  \<open>constants\<close>, which is not among the sources. The spec gives the body the shape
  \<open>{ "article_attachment": {...} }\<close>.
\<close>

definition ARTICLE_ATTACHMENT :: string where
  "ARTICLE_ATTACHMENT = ''article_attachment''"

text \<open>
  \<open>value[key]\<close> for a parsed JSON value: \<open>None\<close> is \<open>undefined\<close>, the value of a
  property that an object, an array or a primitive does not have; on \<open>null\<close> the read
  throws. The list of an object holds each of its keys once.
\<close>

fun getProperty :: "json \<Rightarrow> string \<Rightarrow> exn + json option" where
  "getProperty JNull key = Inl TypeError"
| "getProperty (JObject members) key = Inr (map_of members key)"
| "getProperty other key = Inr None"

text \<open>
  The request of the upload: the endpoint of the article, the authentication of
  \<open>_buildAuthRequest\<close> and the form data. The article id is the string that the template
  literal makes of it.
\<close>

definition attachmentParams :: "options \<Rightarrow> string \<Rightarrow> string \<Rightarrow> params" where
  "attachmentParams opts articleId resourcePath =
     (let endpoint = ''/articles/'' @ articleId @ ''/attachments.json'';
          params = buildAuthRequest opts endpoint
      in params\<lparr>formData :=
           Some [(''inline'', FormString ''true''), (''file'', ReadStream resourcePath)]\<rparr>)"

text \<open>
  The callback given to \<open>request.post\<close>, in its two statements before it invokes the
  callback of the dispatcher. \<open>JSON.parse\<close> is the parameter \<open>parse\<close>, \<open>None\<close> where
  it throws a \<open>SyntaxError\<close>. The result is \<open>Some JNull\<close> for \<open>null\<close>.
\<close>

definition extractAttachment :: "(string \<Rightarrow> json option) \<Rightarrow> string option \<Rightarrow> exn + json option" where
  "extractAttachment parse body =
     (if truthy body then
        (case parse (the body) of
           None \<Rightarrow> Inl SyntaxError
         | Some parsed \<Rightarrow> getProperty parsed ARTICLE_ATTACHMENT)
      else Inr (Some JNull))"

definition postCallback ::
  "(string \<Rightarrow> json option) \<Rightarrow> err option \<Rightarrow> response option \<Rightarrow> string option
     \<Rightarrow> json option completion" where
  "postCallback parse error response body =
     (case extractAttachment parse body of
        Inl x \<Rightarrow> Threw x
      | Inr result \<Rightarrow>
          (case buildError error response of
             Inl x \<Rightarrow> Threw x
           | Inr error' \<Rightarrow> Invoked error' result))"

text \<open>
  \<open>_createAttachment\<close>: \<open>post\<close> is \<open>request.post\<close>, giving for the request the three
  arguments, error, response and body, that it passes to its callback.
\<close>

definition createAttachment ::
  "(string \<Rightarrow> json option) \<Rightarrow> (params \<Rightarrow> err option \<times> response option \<times> string option)
     \<Rightarrow> options \<Rightarrow> string \<Rightarrow> string \<Rightarrow> json option completion" where
  "createAttachment parse post opts articleId resourcePath =
     (case post (attachmentParams opts articleId resourcePath) of
        (error, response, body) \<Rightarrow> postCallback parse error response body)"

text \<open>
  The operation \<open>articleattachments.create\<close> of the wrapper: the dispatcher run on
  \<open>_createAttachment\<close>; \<open>post k\<close> is \<open>request.post\<close> at the \<open>k\<close>-th physical call.
\<close>

definition attachmentsCreate ::
  "(string \<Rightarrow> json option)
     \<Rightarrow> (nat \<Rightarrow> params \<Rightarrow> err option \<times> response option \<times> string option)
     \<Rightarrow> options \<Rightarrow> string \<Rightarrow> string \<Rightarrow> event list \<times> json option outcome" where
  "attachmentsCreate parse post opts articleId resourcePath =
     createPromiseRequest (\<lambda>k. createAttachment parse (post k) opts articleId resourcePath)"

subsection \<open>The constructor and \<open>_wrapPrototypeMethods\<close>\<close>

text \<open>
  The client is the map of its own properties. The value of a property is \<open>null\<close> or
  \<open>undefined\<close>, of which \<open>Object.getPrototypeOf\<close> throws a \<open>TypeError\<close>, or an
  object, given by the enumerable properties of its prototype, each with whether its
  value is a function. A wrapped operation is a closure over \<open>_createPromiseRequest\<close>,
  named here by the resource and method it calls.
\<close>

datatype property_value = Nullish | Object "(string \<times> bool) list"

datatype operation = Generated string string | AttachmentCreate

type_synonym client = "string \<rightharpoonup> property_value"

type_synonym wrapper = "string \<rightharpoonup> (string \<rightharpoonup> operation)"

definition createMethod ::
  "(string \<rightharpoonup> operation) \<Rightarrow> string \<Rightarrow> string \<Rightarrow> (string \<rightharpoonup> operation)" where
  "createMethod property resource method = property(method \<mapsto> Generated resource method)"

definition wrapPrototypeMethods :: "client \<Rightarrow> wrapper \<Rightarrow> string \<Rightarrow> exn + wrapper" where
  "wrapPrototypeMethods client this property =
     (case client property of
        None \<Rightarrow> Inr this
      | Some Nullish \<Rightarrow> Inl TypeError
      | Some (Object prototype) \<Rightarrow>
          Inr (this(property \<mapsto>
                 fold (\<lambda>(method, is_function) surface.
                         if is_function then createMethod surface property method else surface)
                      prototype Map.empty)))"

definition endpoints :: "string list" where
  "endpoints =
     [''articles'', ''articleattachments'', ''sections'', ''accesspolicies'', ''categories'',
      ''translations'']"

fun forEach :: "client \<Rightarrow> wrapper \<Rightarrow> string list \<Rightarrow> exn + wrapper" where
  "forEach client this [] = Inr this"
| "forEach client this (endpoint # rest) =
     (case wrapPrototypeMethods client this endpoint of
        Inl x \<Rightarrow> Inl x
      | Inr this' \<Rightarrow> forEach client this' rest)"

definition constructor :: "client option \<Rightarrow> exn + wrapper" where
  "constructor c =
     (case c of
        None \<Rightarrow> Inl NoClientError
      | Some client \<Rightarrow>
          (case forEach client Map.empty endpoints of
             Inl x \<Rightarrow> Inl x
           | Inr this \<Rightarrow>
               (case this ''articleattachments'' of
                  None \<Rightarrow> Inl TypeError
                | Some surface \<Rightarrow>
                    Inr (this(''articleattachments'' \<mapsto>
                           surface(''create'' \<mapsto> AttachmentCreate))))))"

subsection \<open>The queue\<close>

text \<open>
  Modelled from the spec: the class \<open>Queue\<close> of the package \<open>promise-queue\<close>, which
  the constructor creates with \<open>MAX_CONCURRENT\<close> and to which \<open>_createPromiseRequest\<close>
  adds every unit of work; its code is not among the sources. The spec: the queue accepts
  an unbounded number of tasks, runs at most \<open>MAX_CONCURRENT\<close> of them concurrently, the
  others wait in the order of their admission, first in first out, and a task occupies
  its slot until its future settles. A task is named by its number; \<open>waiting\<close> holds the
  tasks not yet run, oldest first, and \<open>admitted\<close> the tasks that occupy a slot.
\<close>

record queue =
  maxConcurrent :: nat
  waiting :: "nat list"
  admitted :: "nat list"

definition newQueue :: "nat \<Rightarrow> queue" where
  "newQueue n = \<lparr>maxConcurrent = n, waiting = [], admitted = []\<rparr>"

definition add :: "queue \<Rightarrow> nat \<Rightarrow> queue" where
  "add q task = q\<lparr>waiting := waiting q @ [task]\<rparr>"

definition admit :: "queue \<Rightarrow> (nat \<times> queue) option" where
  "admit q =
     (case waiting q of
        [] \<Rightarrow> None
      | task # rest \<Rightarrow>
          if length (admitted q) < maxConcurrent q
          then Some (task, q\<lparr>waiting := rest, admitted := admitted q @ [task]\<rparr>)
          else None)"

definition release :: "queue \<Rightarrow> nat \<Rightarrow> queue" where
  "release q task = q\<lparr>admitted := removeAll task (admitted q)\<rparr>"

subsection \<open>The units of work under the queue\<close>

text \<open>
  The wrapper with any number of units of work. A unit has been added to the queue and
  waits (\<open>Submitted\<close>), has a physical call under way (\<open>InFlight\<close>, with the counter
  \<open>retries\<close> and the number of the call), waits for the timer of a retry
  (\<open>Sleeping\<close>), or has ended: resolved, rejected, or left pending for ever by an
  exception thrown in the completion of its call. The steps are those of the source:
  \<open>Submit\<close> is \<open>this._queue.add(promise)\<close>; \<open>Admit\<close> is the queue running the
  function \<open>promise\<close> of its oldest waiting task, which makes the first call with
  \<open>retries = MAX_RETRIES\<close>; \<open>Complete i\<close> is the completion of the call of unit
  \<open>i\<close>, handled by the callback; \<open>Fire i\<close> is the timer of unit \<open>i\<close> making the
  next call. A promise that resolves or rejects gives its slot back; the timer and the
  repeated call do not touch the queue. \<open>tr i k\<close> is the end of the \<open>k\<close>-th call of
  unit \<open>i\<close>.
\<close>

datatype 'r phase = Submitted | InFlight nat nat | Sleeping nat nat | Ended "'r outcome"

record 'r system =
  queue :: queue
  units :: "'r phase list"

definition initial :: "'r system" where
  "initial = \<lparr>queue = newQueue MAX_CONCURRENT, units = []\<rparr>"

datatype step = Submit | Admit | Complete nat | Fire nat

definition submit :: "'r system \<Rightarrow> 'r system" where
  "submit s = \<lparr>queue = add (queue s) (length (units s)), units = units s @ [Submitted]\<rparr>"

definition admission :: "'r system \<Rightarrow> 'r system option" where
  "admission s =
     (case admit (queue s) of
        None \<Rightarrow> None
      | Some (i, q) \<Rightarrow> Some \<lparr>queue = q, units = (units s)[i := InFlight MAX_RETRIES 0]\<rparr>)"

definition complete :: "(nat \<Rightarrow> nat \<Rightarrow> 'r completion) \<Rightarrow> nat \<Rightarrow> 'r system \<Rightarrow> 'r system option" where
  "complete tr i s =
     (if i < length (units s) then
        (case units s ! i of
           InFlight retries k \<Rightarrow>
             (case tr i k of
                Threw x \<Rightarrow> Some (s\<lparr>units := (units s)[i := Ended (Pending x)]\<rparr>)
              | Invoked error result \<Rightarrow>
                  (case callback retries error result of
                     Resolve v \<Rightarrow>
                       Some \<lparr>queue = release (queue s) i,
                             units = (units s)[i := Ended (Resolved v)]\<rparr>
                   | Reject e \<Rightarrow>
                       Some \<lparr>queue = release (queue s) i,
                             units = (units s)[i := Ended (Rejected e)]\<rparr>
                   | Retry d retries' \<Rightarrow>
                       Some (s\<lparr>units := (units s)[i := Sleeping retries' (Suc k)]\<rparr>)))
         | _ \<Rightarrow> None)
      else None)"

definition fire :: "nat \<Rightarrow> 'r system \<Rightarrow> 'r system option" where
  "fire i s =
     (if i < length (units s) then
        (case units s ! i of
           Sleeping retries k \<Rightarrow> Some (s\<lparr>units := (units s)[i := InFlight retries k]\<rparr>)
         | _ \<Rightarrow> None)
      else None)"

definition exec :: "(nat \<Rightarrow> nat \<Rightarrow> 'r completion) \<Rightarrow> step \<Rightarrow> 'r system \<Rightarrow> 'r system option" where
  "exec tr a s =
     (case a of
        Submit \<Rightarrow> Some (submit s)
      | Admit \<Rightarrow> admission s
      | Complete i \<Rightarrow> complete tr i s
      | Fire i \<Rightarrow> fire i s)"

fun run :: "(nat \<Rightarrow> nat \<Rightarrow> 'r completion) \<Rightarrow> step list \<Rightarrow> 'r system \<Rightarrow> 'r system option" where
  "run tr [] s = Some s"
| "run tr (a # as) s = (case exec tr a s of None \<Rightarrow> None | Some s' \<Rightarrow> run tr as s')"

fun in_flight_phase :: "'r phase \<Rightarrow> bool" where
  "in_flight_phase (InFlight retries k) = True"
| "in_flight_phase other = False"

definition in_flight :: "'r system \<Rightarrow> nat" where
  "in_flight s = length (filter in_flight_phase (units s))"

fun settled :: "'r phase \<Rightarrow> bool" where
  "settled (Ended (Resolved v)) = True"
| "settled (Ended (Rejected e)) = True"
| "settled other = False"

subsection \<open>Measures and invariants used in the proofs\<close>

text \<open>
  A unit occupies a slot from its admission until its promise settles. The weight of a
  unit bounds the steps it can still take: one admission, at most seven completions and
  six timers.
\<close>


fun holds_slot :: "'r phase \<Rightarrow> bool" where
  "holds_slot Submitted = False"
| "holds_slot (InFlight retries k) = True"
| "holds_slot (Sleeping retries k) = True"
| "holds_slot (Ended out) = (case out of Pending x \<Rightarrow> True | _ \<Rightarrow> False)"

fun weight :: "'r phase \<Rightarrow> nat" where
  "weight Submitted = 14"
| "weight (InFlight retries k) = 2 * retries + 1"
| "weight (Sleeping retries k) = 2 * retries + 2"
| "weight (Ended out) = 0"

definition idx_set :: "('r phase \<Rightarrow> bool) \<Rightarrow> 'r phase list \<Rightarrow> nat set" where
  "idx_set P us = {i. i < length us \<and> P (us ! i)}"

definition inv_q :: "'r system \<Rightarrow> bool" where
  "inv_q s \<longleftrightarrow>
     distinct (waiting (queue s)) \<and> distinct (admitted (queue s))
     \<and> set (waiting (queue s)) = idx_set (\<lambda>p. p = Submitted) (units s)
     \<and> set (admitted (queue s)) = idx_set holds_slot (units s)
     \<and> length (admitted (queue s)) \<le> MAX_CONCURRENT
     \<and> maxConcurrent (queue s) = MAX_CONCURRENT"

definition work :: "'r phase list \<Rightarrow> nat" where
  "work us = sum_list (map weight us)"

definition no_pending :: "'r system \<Rightarrow> bool" where
  "no_pending s \<longleftrightarrow> (\<forall>p \<in> set (units s). \<forall>x. p \<noteq> Ended (Pending x))"

subsection \<open>Concrete inputs\<close>

definition always_503 :: "nat \<Rightarrow> unit completion" where
  "always_503 k =
     Invoked (Some \<lparr>statusCode = Some 503, retryAfter = None,
                    message = Some (if k = 6 then ''seventh'' else ''earlier'')\<rparr>) ()"

definition rate_limited :: "nat \<Rightarrow> unit completion" where
  "rate_limited k =
     (if k = 0 then
        Invoked (Some \<lparr>statusCode = Some 429, retryAfter = Some ''2'', message = None\<rparr>) ()
      else Invoked None ())"

definition not_found :: "nat \<Rightarrow> unit completion" where
  "not_found k =
     Invoked (Some \<lparr>statusCode = Some 404, retryAfter = None, message = Some ''Not Found''\<rparr>) ()"

definition connection_error :: err where
  "connection_error = \<lparr>statusCode = None, retryAfter = None, message = Some ''ECONNRESET''\<rparr>"

definition zendesk_options :: options where
  "zendesk_options =
     \<lparr>remoteUri = ''uri'', username = ''username'', password = None, token = ''token'',
      oauth = False\<rparr>"

text \<open>
  A \<open>request.post\<close> that answers the upload of \<open>logo.png\<close> to article 7 with
  status 201 and a body, and every other request with a connection error; and a
  \<open>JSON.parse\<close> that knows that body.
\<close>

definition upload_answer :: "params \<Rightarrow> err option \<times> response option \<times> string option" where
  "upload_answer p =
     (if url p = ''uri/articles/7/attachments.json''
         \<and> formData p
             = Some [(''inline'', FormString ''true''), (''file'', ReadStream ''logo.png'')]
      then (None, Some \<lparr>r_statusCode = 201, r_headers = None\<rparr>, Some ''{...}'')
      else (Some connection_error, None, None))"

definition upload_parse :: "string \<Rightarrow> json option" where
  "upload_parse body =
     (if body = ''{...}''
      then Some (JObject [(''article_attachment'', JObject [(''id'', JNumber 12)])])
      else None)"

text \<open>
  Thirty uploads while the connection fails for the first twenty-nine: \<open>request.post\<close>
  answers them with an error and no response; the thirtieth would be answered with
  status 201 and a body. The schedule submits the thirty, admits as many as the queue
  lets in and completes the twenty-nine calls.
\<close>

definition uploads_offline :: "nat \<Rightarrow> nat \<Rightarrow> json option completion" where
  "uploads_offline i k =
     createAttachment upload_parse
       (\<lambda>p. if i < 29 then (Some connection_error, None, None)
            else (None, Some \<lparr>r_statusCode = 201, r_headers = None\<rparr>, Some ''{...}''))
       zendesk_options ''7'' ''logo.png''"

definition thirty_uploads :: "step list" where
  "thirty_uploads = replicate 30 Submit @ replicate 29 Admit @ map Complete [0..<29]"

definition zendesk_client :: client where
  "zendesk_client =
     [''articles'' \<mapsto> Object [(''list'', True), (''create'', True), (''options'', False)],
      ''articleattachments'' \<mapsto> Object [(''list'', True)]]"

text \<open>
  Forty units of work of which the first fails once with statusCode 503 and no hint and
  all other calls succeed. The schedule submits the forty, admits as many as the queue
  lets in, completes the failing call of unit 0, fires its timer, completes its second
  call and those of the other admitted units, admits the rest and completes them.
\<close>

definition first_fails_once :: "nat \<Rightarrow> nat \<Rightarrow> unit completion" where
  "first_fails_once i k =
     (if i = 0 \<and> k = 0
      then Invoked (Some \<lparr>statusCode = Some 503, retryAfter = None, message = None\<rparr>) ()
      else Invoked None ())"

definition forty_admitted :: "step list" where
  "forty_admitted = replicate 40 Submit @ replicate 29 Admit"

definition forty_retrying :: "step list" where
  "forty_retrying = forty_admitted @ [Complete 0]"

definition forty_done :: "step list" where
  "forty_done =
     forty_retrying @ [Fire 0] @ map Complete [0..<29] @ replicate 11 Admit
       @ map Complete [29..<40]"

section \<open>Properties\<close>

subsection \<open>Backoff\<close>

lemma multiplier_is_power: "max (2 ^ n) (1::int) = 2 ^ n"
  by (simp add: max_absorb1)

text \<open>
  C2. For every attempt index (so for each of the six indices below 6) the backoff is
  \<open>min (500 * 2 ^ attemptIndex) 8000\<close> milliseconds, a function of the index alone:
  500, 1000, 2000, 4000, 8000 and 8000 for the indices 0 to 5.
\<close>

theorem calcRetryAfter_backoff:
  "calcRetryAfter attemptIndex = min (500 * 2 ^ attemptIndex) 8000
   \<and> map calcRetryAfter [0, 1, 2, 3, 4, 5] = [500, 1000, 2000, 4000, 8000, 8000]"
  by (simp add: calcRetryAfter_def RETRY_AFTER_DEFAULT_def RETRY_AFTER_MAX_def
      multiplier_is_power)

subsection \<open>Numbers of seconds\<close>

lemma roundTiesToEven_of_int: "roundTiesToEven (of_int m) = m"
  by (simp add: roundTiesToEven_def)

lemma bitlen_le_53:
  assumes "0 < n" and "n < 2 ^ 53"
  shows "bitlen n \<le> 53"
proof (rule ccontr)
  assume "\<not> bitlen n \<le> 53"
  then have "53 \<le> nat (bitlen n - 1)" by simp
  then have "(2::int) ^ 53 \<le> 2 ^ nat (bitlen n - 1)"
    by (rule power_increasing) simp
  also have "\<dots> \<le> n"
    using bitlen_bounds [OF assms(1)] by simp
  finally show False using assms(2) by simp
qed

lemma toDouble_exact:
  assumes "0 \<le> n" and "n < 2 ^ 53"
  shows "toDouble (of_int n) = Finite (of_int n)"
proof (cases "n = 0")
  case True
  then show ?thesis by (simp add: toDouble_def)
next
  case False
  with assms have pos: "0 < n" by simp
  define x :: rat where "x = of_int n"
  have x1: "1 \<le> x" and xpos: "0 < x" and ax: "\<bar>x\<bar> = x"
    using pos by (simp_all add: x_def)
  have e: "exponent \<bar>x\<bar> = bitlen n - 1"
    using x1 by (simp add: exponent_def ax) (simp add: x_def)
  define u where "u = max (exponent \<bar>x\<bar> - 52) (- 1074)"
  have "u \<le> 0"
    using bitlen_le_53 [OF pos assms(2)] by (simp add: u_def e)
  then obtain k where k: "u = - int k"
    by (metis nat_0_le neg_le_0_iff_le minus_minus)
  have p: "(2::rat) powi u = inverse (2 ^ k)"
    by (simp add: k power_int_minus)
  have q: "\<bar>x\<bar> / 2 powi u = of_int (n * 2 ^ k)"
    unfolding ax p by (simp add: x_def divide_inverse)
  have r: "of_int (roundTiesToEven (\<bar>x\<bar> / 2 powi u)) * 2 powi u = x"
    unfolding q roundTiesToEven_of_int by (simp add: p x_def)
  have "x < 2 ^ 53"
    using assms(2) unfolding x_def by (metis of_int_less_numeral_power_cancel_iff)
  also have "(2::rat) ^ 53 \<le> 2 ^ 1024"
    by (rule power_increasing) simp_all
  finally have small: "\<not> 2 ^ 1024 \<le> x" by simp
  have "toDouble x = Finite x"
    using xpos r small unfolding toDouble_def Let_def u_def [symmetric]
    by (simp add: u_def [symmetric])
  then show ?thesis by (simp add: x_def)
qed

lemma digit_of_char_of: "d < 10 \<Longrightarrow> digit_of (char_of (48 + d)) = Some d"
  by (simp add: digit_of_def Let_def)

lemma decimal_digits: "list_all (is_digit 10) (decimal n) \<and> decimal n \<noteq> []"
proof (induction n rule: decimal.induct)
  case (1 n)
  show ?case
  proof (cases "n < 10")
    case True
    then show ?thesis
      by (subst (1 2) decimal.simps) (simp add: is_digit_def digit_of_char_of)
  next
    case False
    have "n mod 10 < 10" by simp
    then have "is_digit 10 (char_of (48 + n mod 10))"
      by (simp only: is_digit_def digit_of_char_of) simp
    with False 1 show ?thesis
      by (subst (1 2) decimal.simps) simp
  qed
qed

lemma digits_value_snoc:
  "digits_value radix (s @ [c]) = int radix * digits_value radix s + int (the (digit_of c))"
  by (simp add: digits_value_def)

lemma digits_value_decimal: "digits_value 10 (decimal n) = int n"
proof (induction n rule: decimal.induct)
  case (1 n)
  show ?case
  proof (cases "n < 10")
    case True
    then show ?thesis
      by (subst decimal.simps) (simp add: digits_value_def digit_of_char_of)
  next
    case False
    have "n mod 10 < 10" by simp
    then have d: "digit_of (char_of (48 + n mod 10)) = Some (n mod 10)"
      by (rule digit_of_char_of)
    from False 1 have "digits_value 10 (decimal (n div 10)) = int (n div 10)" by simp
    with False d show ?thesis
      by (subst decimal.simps) (simp add: digits_value_snoc zdiv_int zmod_int)
  qed
qed

lemma digit_not_space: "is_digit 10 c \<Longrightarrow> \<not> is_space c"
  by (auto simp: is_digit_def is_space_def digit_of_def Let_def split: if_splits option.splits)

lemma trim_digits:
  assumes "list_all (is_digit 10) s"
  shows "trim s = s"
proof -
  have d: "dropWhile is_space t = t" if "list_all (is_digit 10) t" for t
    using that by (cases t) (auto dest: digit_not_space)
  from assms have "list_all (is_digit 10) (rev s)" by (simp add: list_all_iff)
  with assms show ?thesis by (simp add: trim_def d)
qed

lemma nonDecimalRadix_digits:
  assumes "list_all (is_digit 10) s"
  shows "nonDecimalRadix s = None"
proof (cases s)
  case Nil
  then show ?thesis by (simp add: nonDecimalRadix_def)
next
  case (Cons c0 t)
  show ?thesis
  proof (cases t)
    case Nil
    with Cons show ?thesis by (simp add: nonDecimalRadix_def)
  next
    case (Cons c1 rest)
    with assms \<open>s = c0 # t\<close> have "is_digit 10 c1" by simp
    then have "c1 \<notin> {CHR ''x'', CHR ''X'', CHR ''o'', CHR ''O'', CHR ''b'', CHR ''B''}"
      by (auto simp: is_digit_def digit_of_def Let_def split: if_splits)
    with Cons \<open>s = c0 # t\<close> show ?thesis by (simp add: nonDecimalRadix_def)
  qed
qed

lemma strDecimalLiteral_digits:
  assumes "list_all (is_digit 10) s" and "s \<noteq> []"
  shows "strDecimalLiteral s = Some (of_int (digits_value 10 s))"
proof -
  from assms(1) have t: "takeWhile (is_digit 10) s = s" and d: "dropWhile (is_digit 10) s = []"
    by (simp_all add: list_all_iff)
  show ?thesis
    using assms(2) by (simp add: strDecimalLiteral_def t d)
qed

lemma signedDecimal_digits:
  assumes "list_all (is_digit 10) s" and "s \<noteq> []"
  shows "signedDecimal s = toDouble (of_int (digits_value 10 s))"
proof -
  from assms obtain c t where s: "s = c # t" and c: "is_digit 10 c"
    by (cases s) auto
  from c have ns: "c \<noteq> CHR ''-''" "c \<noteq> CHR ''+''" "c \<noteq> CHR ''I''"
    by (auto simp: is_digit_def digit_of_def Let_def split: if_splits)
  then have "s \<noteq> ''Infinity''" using s by auto
  with ns s strDecimalLiteral_digits [OF assms] show ?thesis
    by (simp add: signedDecimal_def)
qed

lemma toNumber_decimal: "toNumber (decimal n) = toDouble (of_nat n)"
proof -
  have d: "list_all (is_digit 10) (decimal n)" and ne: "decimal n \<noteq> []"
    using decimal_digits [of n] by simp_all
  show ?thesis
    using ne
    by (simp add: toNumber_def trim_digits [OF d] nonDecimalRadix_digits [OF d]
        signedDecimal_digits [OF d ne] digits_value_decimal del: decimal.simps)
qed

lemma times_1000_decimal:
  assumes "n * 1000 < 2 ^ 53"
  shows "times_1000 (toNumber (decimal n)) = Finite (of_nat (n * 1000))"
proof -
  have a: "int n * 1000 < 2 ^ 53"
    using assms by (metis of_nat_less_numeral_power_cancel_iff of_nat_mult of_nat_numeral)
  then have b: "int n < 2 ^ 53" by simp
  have "toNumber (decimal n) = Finite (of_nat n)"
    using toDouble_exact [of "int n"] b by (simp add: toNumber_decimal)
  then show ?thesis
    using toDouble_exact [of "int n * 1000"] a by (simp add: times_1000_def)
qed

subsection \<open>One step of the retry loop\<close>

lemma attempt_resolve:
  "tr k = Invoked None result \<Longrightarrow> attempt tr retries k = ([Call k], Resolved result)"
  by (simp add: attempt.simps [of tr retries k] callback_def)

lemma attempt_reject:
  "tr k = Invoked (Some e) result \<Longrightarrow> \<not> (retryable e \<and> retries > 0) \<Longrightarrow>
   attempt tr retries k = ([Call k], Rejected e)"
  by (auto simp: attempt.simps [of tr retries k] callback_def)

lemma attempt_threw:
  "tr k = Threw x \<Longrightarrow> attempt tr retries k = ([Call k], Pending x)"
  by (simp add: attempt.simps [of tr retries k])

lemma attempt_retry:
  "tr k = Invoked (Some e) result \<Longrightarrow> retryable e \<Longrightarrow> retries > 0 \<Longrightarrow>
   attempt tr retries k =
     (let d = (if truthy (retryAfter e) then times_1000 (toNumber (the (retryAfter e)))
               else Finite (of_int (calcRetryAfter (MAX_RETRIES - retries))))
      in (Call k # SetTimeout d # Warn d (retries - 1) # fst (attempt tr (retries - 1) (k + 1)),
          snd (attempt tr (retries - 1) (k + 1))))"
  by (simp add: attempt.simps [of tr retries k] callback_def Let_def split_beta)

lemma retryable_503: "statusCode e = Some 503 \<Longrightarrow> retryable e"
  by (simp add: retryable_def status_ge_def)

lemma decimal_2: "decimal 2 = ''2''"
  by code_simp

lemma toNumber_2: "toNumber ''2'' = Finite 2"
  using toNumber_decimal [of 2] toDouble_exact [of 2] by (simp add: decimal_2)

lemma times_1000_2: "times_1000 (toNumber ''2'') = Finite 2000"
  using times_1000_decimal [of 2] by (simp add: decimal_2)

subsection \<open>Retry and exhaustion\<close>

text \<open>
  C1. A unit of work whose every physical call fails with statusCode 503 and no
  retry-after hint makes the first call and six retries, waits before them the backoff of
  the indices \<open>MAX_RETRIES - retries\<close> = 0, ..., 5, and then rejects with the error object
  of the last call, the seventh.
\<close>

theorem retries_exhausted_rejects_last_cause:
  assumes "\<forall>k \<le> 6. tr k = Invoked (Some (e k)) (r k)
             \<and> statusCode (e k) = Some 503 \<and> retryAfter (e k) = None"
  shows "createPromiseRequest tr =
           ([Call 0, SetTimeout (Finite (of_int (calcRetryAfter 0))), Warn (Finite 500) 5,
             Call 1, SetTimeout (Finite (of_int (calcRetryAfter 1))), Warn (Finite 1000) 4,
             Call 2, SetTimeout (Finite (of_int (calcRetryAfter 2))), Warn (Finite 2000) 3,
             Call 3, SetTimeout (Finite (of_int (calcRetryAfter 3))), Warn (Finite 4000) 2,
             Call 4, SetTimeout (Finite (of_int (calcRetryAfter 4))), Warn (Finite 8000) 1,
             Call 5, SetTimeout (Finite (of_int (calcRetryAfter 5))), Warn (Finite 8000) 0,
             Call 6],
            Rejected (e 6))"
proof -
  have tr: "tr k = Invoked (Some (e k)) (r k)" and re: "retryable (e k)"
    and nh: "\<not> truthy (retryAfter (e k))" if "k \<le> 6" for k
    using assms that by (auto simp: retryable_503 truthy_def)
  have step: "attempt tr (Suc n) k =
      (Call k # SetTimeout (Finite (of_int (calcRetryAfter (5 - n))))
         # Warn (Finite (of_int (calcRetryAfter (5 - n)))) n
         # fst (attempt tr n (Suc k)), snd (attempt tr n (Suc k)))" if "k \<le> 6" for k n
    using attempt_retry [of tr k "e k" "r k" "Suc n"] tr [OF that] re [OF that] nh [OF that]
    by (simp add: Let_def MAX_RETRIES_def)
  have last: "attempt tr 0 k = ([Call k], Rejected (e k))" if "k \<le> 6" for k
    using attempt_reject [of tr k "e k" "r k" 0] tr [OF that] by simp
  show ?thesis
    unfolding createPromiseRequest_def MAX_RETRIES_def
    by (simp add: eval_nat_numeral step last calcRetryAfter_def RETRY_AFTER_DEFAULT_def
        RETRY_AFTER_MAX_def)
qed

theorem retries_exhausted_rejects_last_cause_witness:
  "createPromiseRequest always_503 =
     ([Call 0, SetTimeout (Finite 500), Warn (Finite 500) 5,
       Call 1, SetTimeout (Finite 1000), Warn (Finite 1000) 4,
       Call 2, SetTimeout (Finite 2000), Warn (Finite 2000) 3,
       Call 3, SetTimeout (Finite 4000), Warn (Finite 4000) 2,
       Call 4, SetTimeout (Finite 8000), Warn (Finite 8000) 1,
       Call 5, SetTimeout (Finite 8000), Warn (Finite 8000) 0,
       Call 6],
      Rejected \<lparr>statusCode = Some 503, retryAfter = None, message = Some ''seventh''\<rparr>)"
  using retries_exhausted_rejects_last_cause [of always_503
      "\<lambda>k. \<lparr>statusCode = Some 503, retryAfter = None,
              message = Some (if k = 6 then ''seventh'' else ''earlier'')\<rparr>" "\<lambda>k. ()"]
  by (simp add: always_503_def calcRetryAfter_def RETRY_AFTER_DEFAULT_def RETRY_AFTER_MAX_def)

subsection \<open>The retry-after hint\<close>

lemma toNumber_one_and_a_half: "times_1000 (toNumber ''1.5'') = Finite 1500"
  by code_simp

lemma toNumber_spaced: "times_1000 (toNumber '' 2 '') = Finite 2000"
  by code_simp

lemma toNumber_rounded:
  "times_1000 (toNumber ''9007199254740993'') = Finite 9007199254740992000"
  by code_simp

lemma toNumber_date: "times_1000 (toNumber ''Wed, 21 Oct 2015 07:28:00 GMT'') = NaN"
  by code_simp

text \<open>
  C3. When a failed call carries a retry-after hint and a retry is left, the delay given to
  the timer is the hint times 1000, whatever the attempt: for every whole number \<open>n\<close> of
  seconds (whose milliseconds a double holds exactly, \<open>n * 1000 < 2 ^ 53\<close>) the hint
  that is the numeral of \<open>n\<close> gives \<open>n * 1000\<close> milliseconds; a hint of 2 seconds gives
  2000 milliseconds, with spaces around it too, and a hint of 1.5 seconds 1500, for every
  value of the counter. Beyond \<open>2 ^ 53\<close> the hint is rounded as a double is, and a
  hint that is a date is not a number, which is then the delay. Every hint takes the
  place of the backoff: the backoff of \<open>_calcRetryAfter\<close> is the delay only when the
  error carries no hint (and its statusCode is at least 500).
\<close>

theorem hint_takes_precedence:
  assumes "tr k = Invoked (Some e) result" and "0 < retries"
  shows "(retryAfter e = Some (decimal n) \<and> n * 1000 < 2 ^ 53 \<longrightarrow>
            (\<exists>evs. fst (attempt tr retries k) =
               Call k # SetTimeout (Finite (of_nat (n * 1000)))
                 # Warn (Finite (of_nat (n * 1000))) (retries - 1) # evs))
       \<and> (retryAfter e = Some ''2'' \<longrightarrow>
            (\<exists>evs. fst (attempt tr retries k) =
               Call k # SetTimeout (Finite 2000) # Warn (Finite 2000) (retries - 1) # evs))
       \<and> (retryAfter e = Some ''1.5'' \<longrightarrow>
            (\<exists>evs. fst (attempt tr retries k) =
               Call k # SetTimeout (Finite 1500) # Warn (Finite 1500) (retries - 1) # evs))
       \<and> (retryAfter e = Some '' 2 '' \<longrightarrow>
            (\<exists>evs. fst (attempt tr retries k) =
               Call k # SetTimeout (Finite 2000) # Warn (Finite 2000) (retries - 1) # evs))
       \<and> (retryAfter e = Some ''9007199254740993'' \<longrightarrow>
            (\<exists>evs. fst (attempt tr retries k) =
               Call k # SetTimeout (Finite 9007199254740992000)
                 # Warn (Finite 9007199254740992000) (retries - 1) # evs))
       \<and> (retryAfter e = Some ''Wed, 21 Oct 2015 07:28:00 GMT'' \<longrightarrow>
            (\<exists>evs. fst (attempt tr retries k) =
               Call k # SetTimeout NaN # Warn NaN (retries - 1) # evs))
       \<and> (truthy (retryAfter e) \<longrightarrow>
            (\<exists>evs. fst (attempt tr retries k) =
               Call k # SetTimeout (times_1000 (toNumber (the (retryAfter e))))
                 # Warn (times_1000 (toNumber (the (retryAfter e)))) (retries - 1) # evs))
       \<and> (\<not> truthy (retryAfter e) \<and> status_ge (statusCode e) 500 \<longrightarrow>
            (\<exists>evs. fst (attempt tr retries k) =
               Call k # SetTimeout (Finite (of_int (calcRetryAfter (MAX_RETRIES - retries))))
                 # Warn (Finite (of_int (calcRetryAfter (MAX_RETRIES - retries)))) (retries - 1)
                 # evs))"
proof -
  have hinted: "\<exists>evs. fst (attempt tr retries k) =
      Call k # SetTimeout (times_1000 (toNumber (the (retryAfter e))))
        # Warn (times_1000 (toNumber (the (retryAfter e)))) (retries - 1) # evs"
    if h: "truthy (retryAfter e)"
  proof -
    from h have "retryable e" by (simp add: retryable_def)
    from attempt_retry [of tr k e result retries, OF assms(1) this assms(2)] h
    show ?thesis by (simp add: Let_def)
  qed
  have numeral: "\<exists>evs. fst (attempt tr retries k) =
      Call k # SetTimeout (Finite (of_nat (n * 1000)))
        # Warn (Finite (of_nat (n * 1000))) (retries - 1) # evs"
    if h: "retryAfter e = Some (decimal n) \<and> n * 1000 < 2 ^ 53"
  proof -
    from h decimal_digits [of n] have "truthy (retryAfter e)" by (simp add: truthy_def)
    from hinted [OF this] h times_1000_decimal [of n] show ?thesis by simp
  qed
  have two: "\<exists>evs. fst (attempt tr retries k) =
      Call k # SetTimeout (Finite 2000) # Warn (Finite 2000) (retries - 1) # evs"
    if h: "retryAfter e = Some ''2''"
  proof -
    from h have "truthy (retryAfter e)" by (simp add: truthy_def)
    from hinted [OF this] h show ?thesis by (simp add: times_1000_2)
  qed
  have fraction: "\<exists>evs. fst (attempt tr retries k) =
      Call k # SetTimeout (Finite 1500) # Warn (Finite 1500) (retries - 1) # evs"
    if h: "retryAfter e = Some ''1.5''"
  proof -
    from h have "truthy (retryAfter e)" by (simp add: truthy_def)
    from hinted [OF this] h show ?thesis by (simp add: toNumber_one_and_a_half)
  qed
  have spaced: "\<exists>evs. fst (attempt tr retries k) =
      Call k # SetTimeout (Finite 2000) # Warn (Finite 2000) (retries - 1) # evs"
    if h: "retryAfter e = Some '' 2 ''"
  proof -
    from h have "truthy (retryAfter e)" by (simp add: truthy_def)
    from hinted [OF this] h show ?thesis by (simp add: toNumber_spaced)
  qed
  have rounded: "\<exists>evs. fst (attempt tr retries k) =
      Call k # SetTimeout (Finite 9007199254740992000)
        # Warn (Finite 9007199254740992000) (retries - 1) # evs"
    if h: "retryAfter e = Some ''9007199254740993''"
  proof -
    from h have "truthy (retryAfter e)" by (simp add: truthy_def)
    from hinted [OF this] h show ?thesis by (simp add: toNumber_rounded)
  qed
  have date: "\<exists>evs. fst (attempt tr retries k) =
      Call k # SetTimeout NaN # Warn NaN (retries - 1) # evs"
    if h: "retryAfter e = Some ''Wed, 21 Oct 2015 07:28:00 GMT''"
  proof -
    from h have "truthy (retryAfter e)" by (simp add: truthy_def)
    from hinted [OF this] h show ?thesis by (simp add: toNumber_date)
  qed
  have backoff: "\<exists>evs. fst (attempt tr retries k) =
      Call k # SetTimeout (Finite (of_int (calcRetryAfter (MAX_RETRIES - retries))))
        # Warn (Finite (of_int (calcRetryAfter (MAX_RETRIES - retries)))) (retries - 1) # evs"
    if h: "\<not> truthy (retryAfter e) \<and> status_ge (statusCode e) 500"
  proof -
    from h have "retryable e" by (simp add: retryable_def)
    from attempt_retry [of tr k e result retries, OF assms(1) this assms(2)] h
    show ?thesis by (simp add: Let_def)
  qed
  from hinted numeral two fraction spaced rounded date backoff show ?thesis by blast
qed

theorem hint_takes_precedence_witness:
  "rate_limited 0 =
     Invoked (Some \<lparr>statusCode = Some 429, retryAfter = Some ''2'', message = None\<rparr>) ()
   \<and> (0::nat) < 4
   \<and> decimal 2 = ''2''
   \<and> (2::nat) * 1000 < 2 ^ 53
   \<and> truthy (Some ''2'')
   \<and> (\<exists>evs. fst (attempt rate_limited 4 0) =
         Call 0 # SetTimeout (Finite 2000) # Warn (Finite 2000) 3 # evs)
   \<and> createPromiseRequest rate_limited =
       ([Call 0, SetTimeout (Finite 2000), Warn (Finite 2000) 5, Call 1], Resolved ())"
proof -
  have tr0: "rate_limited 0 =
      Invoked (Some \<lparr>statusCode = Some 429, retryAfter = Some ''2'', message = None\<rparr>) ()"
    by (simp add: rate_limited_def)
  have pos: "(0::nat) < 4" by simp
  have "\<exists>evs. fst (attempt rate_limited 4 0) =
      Call 0 # SetTimeout (Finite 2000) # Warn (Finite 2000) 3 # evs"
    using hint_takes_precedence [where tr = rate_limited and k = 0 and retries = 4 and n = 2,
        OF tr0 pos]
    by (simp add: decimal_2)
  moreover have "createPromiseRequest rate_limited =
      ([Call 0, SetTimeout (Finite 2000), Warn (Finite 2000) 5, Call 1], Resolved ())"
    unfolding createPromiseRequest_def MAX_RETRIES_def
    using attempt_retry [where tr = rate_limited and k = 0 and retries = 6, OF tr0]
      attempt_resolve [of rate_limited 1 "()" 5]
    by (simp add: retryable_def truthy_def Let_def times_1000_2 rate_limited_def)
  ultimately show ?thesis
    using tr0 by (simp add: truthy_def decimal_2)
qed

subsection \<open>Which failures are retried\<close>

text \<open>
  C4. With a retry left, the callback retries a failure exactly when the error carries a
  retry-after hint or its statusCode is at least 500. A unit of work whose first call
  fails with statusCode 404 and no hint makes that one call, sets no timer and rejects
  with that error.
\<close>

theorem retryable_iff_hint_or_5xx:
  "(0 < retries \<longrightarrow>
      ((\<exists>d r. callback retries (Some e) result = Retry d r)
         \<longleftrightarrow> (truthy (retryAfter e) \<or> (\<exists>c. statusCode e = Some c \<and> 500 \<le> c))))
   \<and> (tr 0 = Invoked (Some e) result \<and> statusCode e = Some 404 \<and> \<not> truthy (retryAfter e)
        \<longrightarrow> createPromiseRequest tr = ([Call 0], Rejected e))"
proof (intro conjI impI)
  assume "0 < retries"
  then show "(\<exists>d r. callback retries (Some e) result = Retry d r)
      \<longleftrightarrow> (truthy (retryAfter e) \<or> (\<exists>c. statusCode e = Some c \<and> 500 \<le> c))"
    by (auto simp: callback_def retryable_def status_ge_def Let_def split: option.splits)
next
  assume h: "tr 0 = Invoked (Some e) result \<and> statusCode e = Some 404 \<and> \<not> truthy (retryAfter e)"
  then have "\<not> retryable e" by (simp add: retryable_def status_ge_def)
  with h show "createPromiseRequest tr = ([Call 0], Rejected e)"
    unfolding createPromiseRequest_def by (simp add: attempt_reject)
qed

theorem retryable_iff_hint_or_5xx_witness:
  "(0::nat) < 6
   \<and> callback 6 (Some \<lparr>statusCode = Some 503, retryAfter = None, message = None\<rparr>) ()
       = Retry (Finite 500) 5
   \<and> callback 6 (Some \<lparr>statusCode = Some 404, retryAfter = None, message = None\<rparr>) ()
       = Reject \<lparr>statusCode = Some 404, retryAfter = None, message = None\<rparr>
   \<and> createPromiseRequest not_found =
       ([Call 0],
        Rejected \<lparr>statusCode = Some 404, retryAfter = None, message = Some ''Not Found''\<rparr>)"
  using retryable_iff_hint_or_5xx [of 6
      "\<lparr>statusCode = Some 404, retryAfter = None, message = Some ''Not Found''\<rparr>" "()" not_found]
  by (simp add: not_found_def truthy_def callback_def retryable_def status_ge_def
      calcRetryAfter_def MAX_RETRIES_def RETRY_AFTER_DEFAULT_def RETRY_AFTER_MAX_def)

subsection \<open>The error shaping of \<open>_buildError\<close>\<close>

text \<open>
  C5, at a response with status 503 and the header \<open>retry-after: 2\<close>: the error that
  \<open>_buildError\<close> makes carries the header value as it came, the string \<open>2\<close> that
  reads as 2 seconds, and not that value times 1000, which is 2000.
\<close>

theorem buildError_keeps_seconds:
  "buildError None (Some \<lparr>r_statusCode = 503, r_headers = Some [''retry-after'' \<mapsto> ''2'']\<rparr>)
     = Inr (Some \<lparr>statusCode = Some 503, retryAfter = Some ''2'', message = None\<rparr>)
   \<and> toNumber ''2'' = Finite 2
   \<and> times_1000 (toNumber ''2'') = Finite 2000
   \<and> toNumber ''2'' \<noteq> times_1000 (toNumber ''2'')"
  using times_1000_2
  by (simp add: buildError_def retryAfterHeader_def truthy_def empty_err_def toNumber_2)

text \<open>
  C5, amended. For a response that is present: with no error, a status below 400 and no
  retry-after header \<open>_buildError\<close> returns no error; with no error and a status of at
  least 400 it returns a new error carrying that statusCode; and when the response bears
  a non-empty retry-after header it returns an error, the one given, the one made for
  the status, or a new one, whose \<open>retryAfter\<close> is the header value as it came, in
  seconds. The callback of the dispatcher multiplies it by 1000 when it sets the timer.
\<close>

theorem buildError_classifies:
  "(error = None \<and> r_statusCode r < 400 \<and> \<not> truthy (retryAfterHeader r)
      \<longrightarrow> buildError error (Some r) = Inr None)
   \<and> (error = None \<and> 400 \<le> r_statusCode r
      \<longrightarrow> (\<exists>d. buildError error (Some r) = Inr (Some d)
               \<and> statusCode d = Some (r_statusCode r) \<and> message d = None
               \<and> (\<not> truthy (retryAfterHeader r) \<longrightarrow> retryAfter d = None)))
   \<and> (truthy (retryAfterHeader r)
      \<longrightarrow> (\<exists>d. buildError error (Some r) = Inr (Some d)
               \<and> retryAfter d = retryAfterHeader r
               \<and> statusCode d =
                   (case error of
                      Some e \<Rightarrow> statusCode e
                    | None \<Rightarrow> if 400 \<le> r_statusCode r then Some (r_statusCode r) else None)
               \<and> message d = (case error of Some e \<Rightarrow> message e | None \<Rightarrow> None)
               \<and> (0 < retries \<longrightarrow>
                    callback retries (Some d) result
                      = Retry (times_1000 (toNumber (the (retryAfterHeader r)))) (retries - 1))))"
  by (auto simp: buildError_def empty_err_def Let_def callback_def retryable_def
      split: option.splits)

theorem buildError_classifies_witness:
  "buildError None (Some \<lparr>r_statusCode = 200, r_headers = Some Map.empty\<rparr>) = Inr None
   \<and> buildError None (Some \<lparr>r_statusCode = 404, r_headers = None\<rparr>)
       = Inr (Some \<lparr>statusCode = Some 404, retryAfter = None, message = None\<rparr>)
   \<and> buildError None (Some \<lparr>r_statusCode = 200, r_headers = Some [''retry-after'' \<mapsto> ''2'']\<rparr>)
       = Inr (Some \<lparr>statusCode = None, retryAfter = Some ''2'', message = None\<rparr>)
   \<and> callback 6 (Some \<lparr>statusCode = None, retryAfter = Some ''2'', message = None\<rparr>) ()
       = Retry (Finite 2000) 5"
  using buildError_classifies [of None "\<lparr>r_statusCode = 200, r_headers = Some Map.empty\<rparr>" 6 "()"]
    buildError_classifies [of None "\<lparr>r_statusCode = 404, r_headers = None\<rparr>" 6 "()"]
    buildError_classifies [of None
      "\<lparr>r_statusCode = 200, r_headers = Some [''retry-after'' \<mapsto> ''2'']\<rparr>" 6 "()"]
  by (auto simp: retryAfterHeader_def truthy_def times_1000_2 buildError_def empty_err_def
      callback_def retryable_def)

subsection \<open>A failure without a response\<close>

text \<open>
  C7, at a connection error of the upload: \<open>request.post\<close> calls back with an error and
  no response. \<open>_buildError\<close> throws on the missing response, the callback of the
  dispatcher is never invoked and the promise of \<open>articleattachments.create\<close> stays
  pending after its one call. The same error from a generated operation rejects the
  promise at once.
\<close>

theorem upload_without_response_never_settles:
  "buildError (Some connection_error) None = Inl TypeError
   \<and> attachmentsCreate parse (\<lambda>k p. (Some connection_error, None, None)) opts articleId
        resourcePath
       = ([Call 0], Pending TypeError)
   \<and> createPromiseRequest (\<lambda>k. Invoked (Some connection_error) ())
       = ([Call 0], Rejected connection_error)"
  by (simp add: buildError_def attachmentsCreate_def createPromiseRequest_def createAttachment_def
      postCallback_def extractAttachment_def truthy_def attempt_threw attempt_reject retryable_def
      status_ge_def connection_error_def)

subsection \<open>The attachment upload\<close>

text \<open>
  C8. \<open>_createAttachment\<close> gives \<open>request.post\<close> one request: its URL is the base
  URL followed by \<open>/articles/{articleId}/attachments.json\<close>, its authentication that
  of \<open>_buildAuthRequest\<close> for this endpoint, and its form data the field \<open>inline\<close>
  with the string \<open>true\<close>, not a boolean, and the stream of the file. What
  \<open>request.post\<close> answers to that request decides the completion: from a body that
  parses to an object with the member \<open>article_attachment\<close> the completion receives
  the value of that member, and from a missing or empty body it receives \<open>null\<close>. So
  the operation \<open>articleattachments.create\<close>, on a response without error, resolves
  with the attachment record, or with \<open>null\<close> when the body is empty, after one call.
\<close>

theorem attachment_request_and_result:
  "attachmentParams opts articleId resourcePath
     = \<lparr>url = remoteUri opts @ ''/articles/'' @ articleId @ ''/attachments.json'',
        auth = auth (buildAuthRequest opts (''/articles/'' @ articleId @ ''/attachments.json'')),
        formData = Some [(''inline'', FormString ''true''), (''file'', ReadStream resourcePath)]\<rparr>
   \<and> FormString ''true'' \<noteq> FormBoolean True
   \<and> (post (attachmentParams opts articleId resourcePath) = (error, Some r, Some body)
        \<and> body \<noteq> [] \<and> parse body = Some (JObject members)
        \<and> map_of members ''article_attachment'' = Some attachment
        \<longrightarrow> (\<exists>error'. createAttachment parse post opts articleId resourcePath
                        = Invoked error' (Some attachment)))
   \<and> (post (attachmentParams opts articleId resourcePath) = (error, Some r, nobody)
        \<and> (nobody = None \<or> nobody = Some [])
        \<longrightarrow> (\<exists>error'. createAttachment parse post opts articleId resourcePath
                        = Invoked error' (Some JNull)))
   \<and> (posts 0 (attachmentParams opts articleId resourcePath) = (None, Some r, Some body)
        \<and> r_statusCode r < 400 \<and> \<not> truthy (retryAfterHeader r)
        \<and> body \<noteq> [] \<and> parse body = Some (JObject members)
        \<and> map_of members ''article_attachment'' = Some attachment
        \<longrightarrow> attachmentsCreate parse posts opts articleId resourcePath
              = ([Call 0], Resolved (Some attachment)))
   \<and> (posts 0 (attachmentParams opts articleId resourcePath) = (None, Some r, nobody)
        \<and> r_statusCode r < 400 \<and> \<not> truthy (retryAfterHeader r)
        \<and> (nobody = None \<or> nobody = Some [])
        \<longrightarrow> attachmentsCreate parse posts opts articleId resourcePath
              = ([Call 0], Resolved (Some JNull)))"
proof (intro conjI impI)
  show "attachmentParams opts articleId resourcePath
     = \<lparr>url = remoteUri opts @ ''/articles/'' @ articleId @ ''/attachments.json'',
        auth = auth (buildAuthRequest opts (''/articles/'' @ articleId @ ''/attachments.json'')),
        formData = Some [(''inline'', FormString ''true''), (''file'', ReadStream resourcePath)]\<rparr>"
    by (simp add: attachmentParams_def buildAuthRequest_def Let_def)
next
  show "FormString ''true'' \<noteq> FormBoolean True" by simp
next
  assume "post (attachmentParams opts articleId resourcePath) = (error, Some r, Some body)
      \<and> body \<noteq> [] \<and> parse body = Some (JObject members)
      \<and> map_of members ''article_attachment'' = Some attachment"
  then show "\<exists>error'. createAttachment parse post opts articleId resourcePath
      = Invoked error' (Some attachment)"
    by (simp add: createAttachment_def postCallback_def extractAttachment_def truthy_def
        ARTICLE_ATTACHMENT_def buildError_def Let_def)
next
  assume "post (attachmentParams opts articleId resourcePath) = (error, Some r, nobody)
      \<and> (nobody = None \<or> nobody = Some [])"
  then show "\<exists>error'. createAttachment parse post opts articleId resourcePath
      = Invoked error' (Some JNull)"
    by (auto simp: createAttachment_def postCallback_def extractAttachment_def truthy_def
        buildError_def Let_def)
next
  assume h: "posts 0 (attachmentParams opts articleId resourcePath) = (None, Some r, Some body)
      \<and> r_statusCode r < 400 \<and> \<not> truthy (retryAfterHeader r)
      \<and> body \<noteq> [] \<and> parse body = Some (JObject members)
      \<and> map_of members ''article_attachment'' = Some attachment"
  then have "createAttachment parse (posts 0) opts articleId resourcePath
      = Invoked None (Some attachment)"
    by (simp add: createAttachment_def postCallback_def extractAttachment_def truthy_def
        ARTICLE_ATTACHMENT_def buildError_def Let_def)
  then show "attachmentsCreate parse posts opts articleId resourcePath
      = ([Call 0], Resolved (Some attachment))"
    unfolding attachmentsCreate_def createPromiseRequest_def by (simp add: attempt_resolve)
next
  assume h: "posts 0 (attachmentParams opts articleId resourcePath) = (None, Some r, nobody)
      \<and> r_statusCode r < 400 \<and> \<not> truthy (retryAfterHeader r)
      \<and> (nobody = None \<or> nobody = Some [])"
  then have "createAttachment parse (posts 0) opts articleId resourcePath
      = Invoked None (Some JNull)"
    by (auto simp: createAttachment_def postCallback_def extractAttachment_def truthy_def
        buildError_def Let_def)
  then show "attachmentsCreate parse posts opts articleId resourcePath
      = ([Call 0], Resolved (Some JNull))"
    unfolding attachmentsCreate_def createPromiseRequest_def by (simp add: attempt_resolve)
qed

theorem attachment_request_and_result_witness:
  "upload_answer (attachmentParams zendesk_options ''7'' ''logo.png'')
     = (None, Some \<lparr>r_statusCode = 201, r_headers = None\<rparr>, Some ''{...}'')
   \<and> upload_answer
        \<lparr>url = ''uri/articles/7/attachments.json'',
         auth = \<lparr>bearer = None, user = Some ''username/token'', pass = Some ''token''\<rparr>,
         formData = Some [(''inline'', FormString ''true''), (''file'', ReadStream ''logo.png'')]\<rparr>
     = (None, Some \<lparr>r_statusCode = 201, r_headers = None\<rparr>, Some ''{...}'')
   \<and> createAttachment upload_parse upload_answer zendesk_options ''7'' ''logo.png''
       = Invoked None (Some (JObject [(''id'', JNumber 12)]))
   \<and> attachmentsCreate upload_parse (\<lambda>k. upload_answer) zendesk_options ''7'' ''logo.png''
       = ([Call 0], Resolved (Some (JObject [(''id'', JNumber 12)])))
   \<and> attachmentsCreate upload_parse
         (\<lambda>k p. (None, Some \<lparr>r_statusCode = 201, r_headers = None\<rparr>, None))
         zendesk_options ''7'' ''logo.png''
       = ([Call 0], Resolved (Some JNull))"
proof -
  have req: "attachmentParams zendesk_options ''7'' ''logo.png''
     = \<lparr>url = ''uri/articles/7/attachments.json'',
        auth = \<lparr>bearer = None, user = Some ''username/token'', pass = Some ''token''\<rparr>,
        formData = Some [(''inline'', FormString ''true''), (''file'', ReadStream ''logo.png'')]\<rparr>"
    by (simp add: attachmentParams_def buildAuthRequest_def zendesk_options_def truthy_def)
  have ans: "upload_answer (attachmentParams zendesk_options ''7'' ''logo.png'')
     = (None, Some \<lparr>r_statusCode = 201, r_headers = None\<rparr>, Some ''{...}'')"
    by (simp add: req upload_answer_def)
  have parsed: "upload_parse ''{...}''
      = Some (JObject [(''article_attachment'', JObject [(''id'', JNumber 12)])])"
    by (simp add: upload_parse_def)
  note inst = attachment_request_and_result
    [where opts = zendesk_options and articleId = "''7''" and resourcePath = "''logo.png''"
       and parse = upload_parse and body = "''{...}''"
       and members = "[(''article_attachment'', JObject [(''id'', JNumber 12)])]"
       and attachment = "JObject [(''id'', JNumber 12)]"
       and r = "\<lparr>r_statusCode = 201, r_headers = None\<rparr>" and error = None]
  have a: "createAttachment upload_parse upload_answer zendesk_options ''7'' ''logo.png''
      = Invoked None (Some (JObject [(''id'', JNumber 12)]))"
    using ans parsed
    by (simp add: createAttachment_def postCallback_def extractAttachment_def
        ARTICLE_ATTACHMENT_def buildError_def retryAfterHeader_def truthy_def)
  have b: "attachmentsCreate upload_parse (\<lambda>k. upload_answer) zendesk_options ''7'' ''logo.png''
      = ([Call 0], Resolved (Some (JObject [(''id'', JNumber 12)])))"
    using inst [where posts = "\<lambda>k. upload_answer"] ans parsed
    by (simp add: retryAfterHeader_def truthy_def)
  have c: "attachmentsCreate upload_parse
        (\<lambda>k p. (None, Some \<lparr>r_statusCode = 201, r_headers = None\<rparr>, None))
        zendesk_options ''7'' ''logo.png''
      = ([Call 0], Resolved (Some JNull))"
    using inst [where posts = "\<lambda>k p. (None, Some \<lparr>r_statusCode = 201, r_headers = None\<rparr>, None)"
        and nobody = None]
    by (simp add: retryAfterHeader_def truthy_def)
  from ans a b c show ?thesis by (simp add: req)
qed

subsection \<open>The request builder\<close>

text \<open>
  C9. The request of \<open>_buildAuthRequest\<close> has the base URL followed by the endpoint, and
  its authentication goes by precedence: with OAuth the bearer token, whether or not a
  password is set; else, with a password (a non-empty one), the username and the
  password; else the username followed by \<open>/token\<close> and the API token as password.
\<close>

theorem buildAuthRequest_precedence:
  "url (buildAuthRequest opts endpoint) = remoteUri opts @ endpoint
   \<and> (oauth opts \<longrightarrow>
        auth (buildAuthRequest opts endpoint)
          = \<lparr>bearer = Some (token opts), user = None, pass = None\<rparr>)
   \<and> (\<not> oauth opts \<and> truthy (password opts) \<longrightarrow>
        auth (buildAuthRequest opts endpoint)
          = \<lparr>bearer = None, user = Some (username opts), pass = password opts\<rparr>)
   \<and> (\<not> oauth opts \<and> \<not> truthy (password opts) \<longrightarrow>
        auth (buildAuthRequest opts endpoint)
          = \<lparr>bearer = None, user = Some (username opts @ ''/token''), pass = Some (token opts)\<rparr>)"
  by (simp add: buildAuthRequest_def)

theorem buildAuthRequest_precedence_witness:
  "buildAuthRequest
      \<lparr>remoteUri = ''uri'', username = ''username'', password = Some ''secret'',
       token = ''token'', oauth = True\<rparr> ''/articles.json''
     = \<lparr>url = ''uri/articles.json'',
        auth = \<lparr>bearer = Some ''token'', user = None, pass = None\<rparr>, formData = None\<rparr>
   \<and> buildAuthRequest
        \<lparr>remoteUri = ''uri'', username = ''username'', password = Some ''secret'',
         token = ''token'', oauth = False\<rparr> ''/articles.json''
       = \<lparr>url = ''uri/articles.json'',
          auth = \<lparr>bearer = None, user = Some ''username'', pass = Some ''secret''\<rparr>,
          formData = None\<rparr>
   \<and> buildAuthRequest
        \<lparr>remoteUri = ''uri'', username = ''username'', password = None,
         token = ''token'', oauth = False\<rparr> ''/articles.json''
       = \<lparr>url = ''uri/articles.json'',
          auth = \<lparr>bearer = None, user = Some ''username/token'', pass = Some ''token''\<rparr>,
          formData = None\<rparr>"
  using buildAuthRequest_precedence
      [of "\<lparr>remoteUri = ''uri'', username = ''username'', password = Some ''secret'',
            token = ''token'', oauth = True\<rparr>" "''/articles.json''"]
    buildAuthRequest_precedence
      [of "\<lparr>remoteUri = ''uri'', username = ''username'', password = Some ''secret'',
            token = ''token'', oauth = False\<rparr>" "''/articles.json''"]
    buildAuthRequest_precedence
      [of "\<lparr>remoteUri = ''uri'', username = ''username'', password = None,
            token = ''token'', oauth = False\<rparr>" "''/articles.json''"]
  by (simp add: truthy_def buildAuthRequest_def)

subsection \<open>The constructor\<close>

lemma wrap_other:
  "wrapPrototypeMethods client this p = Inr this' \<Longrightarrow> q \<noteq> p \<Longrightarrow> this' q = this q"
  by (auto simp: wrapPrototypeMethods_def split: option.splits property_value.splits)

lemma wrap_same_None:
  "wrapPrototypeMethods client this p = Inr this' \<Longrightarrow> client p = None \<Longrightarrow> this' p = this p"
  by (auto simp: wrapPrototypeMethods_def split: option.splits property_value.splits)

lemma wrap_throws: "wrapPrototypeMethods client this p = Inl x \<Longrightarrow> x = TypeError"
  by (auto simp: wrapPrototypeMethods_def split: option.splits property_value.splits)

lemma forEach_absent:
  "forEach client this ps = Inr this' \<Longrightarrow> client q = None \<Longrightarrow> this' q = this q"
proof (induction ps arbitrary: this)
  case Nil
  then show ?case by simp
next
  case (Cons p ps)
  from Cons.prems(1) obtain mid where w: "wrapPrototypeMethods client this p = Inr mid"
    and f: "forEach client mid ps = Inr this'"
    by (auto split: sum.splits)
  have "mid q = this q"
    using w Cons.prems(2) by (cases "q = p") (auto dest: wrap_other wrap_same_None)
  with Cons.IH [OF f Cons.prems(2)] show ?case by simp
qed

lemma forEach_throws: "forEach client this ps = Inl x \<Longrightarrow> x = TypeError"
  by (induction ps arbitrary: this) (auto split: sum.splits dest: wrap_throws)

text \<open>
  C10. The constructor returns a wrapper only for a client that has the own property
  \<open>articleattachments\<close>. For a client without it the assignment of the operation
  \<open>create\<close> finds no wrapped \<open>articleattachments\<close> and the constructor throws a
  \<open>TypeError\<close>; with no client at all it throws its own error.
\<close>

theorem constructor_needs_articleattachments:
  "(constructor c = Inr w \<longrightarrow>
      (\<exists>client. c = Some client \<and> client ''articleattachments'' \<noteq> None))
   \<and> (c = Some client \<and> client ''articleattachments'' = None
        \<longrightarrow> constructor c = Inl TypeError)
   \<and> constructor None = Inl NoClientError"
proof (intro conjI impI)
  assume ok: "constructor c = Inr w"
  then obtain client where c: "c = Some client"
    by (cases c) (auto simp: constructor_def)
  from ok c obtain this where f: "forEach client Map.empty endpoints = Inr this"
    and some: "this ''articleattachments'' \<noteq> None"
    by (auto simp: constructor_def split: sum.splits option.splits)
  have "client ''articleattachments'' \<noteq> None"
  proof
    assume "client ''articleattachments'' = None"
    from forEach_absent [OF f this] some show False by simp
  qed
  with c show "\<exists>client. c = Some client \<and> client ''articleattachments'' \<noteq> None" by blast
next
  assume h: "c = Some client \<and> client ''articleattachments'' = None"
  show "constructor c = Inl TypeError"
  proof (cases "forEach client Map.empty endpoints")
    case (Inl x)
    with h forEach_throws [OF Inl] show ?thesis by (simp add: constructor_def)
  next
    case (Inr this)
    from forEach_absent [OF Inr] h have "this ''articleattachments'' = None" by simp
    with h Inr show ?thesis by (simp add: constructor_def)
  qed
next
  show "constructor None = Inl NoClientError" by (simp add: constructor_def)
qed

theorem constructor_needs_articleattachments_witness:
  "(\<exists>w. constructor (Some zendesk_client) = Inr w
        \<and> the (w ''articleattachments'') ''create'' = Some AttachmentCreate
        \<and> the (w ''articleattachments'') ''list'' = Some (Generated ''articleattachments'' ''list'')
        \<and> the (w ''articles'') ''create'' = Some (Generated ''articles'' ''create'')
        \<and> the (w ''articles'') ''options'' = None
        \<and> w ''sections'' = None)
   \<and> zendesk_client ''articleattachments'' \<noteq> None
   \<and> (zendesk_client(''articleattachments'' := None)) ''articleattachments'' = None
   \<and> constructor (Some (zendesk_client(''articleattachments'' := None))) = Inl TypeError"
proof -
  have a: "\<exists>w. constructor (Some zendesk_client) = Inr w
        \<and> the (w ''articleattachments'') ''create'' = Some AttachmentCreate
        \<and> the (w ''articleattachments'') ''list'' = Some (Generated ''articleattachments'' ''list'')
        \<and> the (w ''articles'') ''create'' = Some (Generated ''articles'' ''create'')
        \<and> the (w ''articles'') ''options'' = None
        \<and> w ''sections'' = None"
    by (simp add: constructor_def zendesk_client_def endpoints_def wrapPrototypeMethods_def
        createMethod_def)
  then obtain w where w: "constructor (Some zendesk_client) = Inr w" by blast
  from constructor_needs_articleattachments [of "Some zendesk_client" w] w
  have b: "zendesk_client ''articleattachments'' \<noteq> None" by simp
  have c: "constructor (Some (zendesk_client(''articleattachments'' := None))) = Inl TypeError"
    using constructor_needs_articleattachments
      [of "Some (zendesk_client(''articleattachments'' := None))" _
          "zendesk_client(''articleattachments'' := None)"]
    by simp
  from a b c show ?thesis by simp
qed

subsection \<open>Bounded concurrency\<close>

lemma idx_set_update:
  "i < length us \<Longrightarrow>
   idx_set P (us[i := p]) = (if P p then insert i (idx_set P us) else idx_set P us - {i})"
  by (auto simp: idx_set_def nth_list_update)

lemma idx_set_append:
  "idx_set P (us @ [p]) = (if P p then insert (length us) (idx_set P us) else idx_set P us)"
  by (auto simp: idx_set_def nth_append less_Suc_eq)

lemma idx_set_bound: "i \<in> idx_set P us \<Longrightarrow> i < length us \<and> P (us ! i)"
  by (simp add: idx_set_def)

lemma idx_setI: "i < length us \<Longrightarrow> P (us ! i) \<Longrightarrow> i \<in> idx_set P us"
  by (simp add: idx_set_def)

lemma inv_q_initial: "inv_q initial"
  by (simp add: inv_q_def initial_def newQueue_def idx_set_def)

lemma inv_q_submit:
  assumes "inv_q s"
  shows "inv_q (submit s)"
proof -
  have "length (units s) \<notin> idx_set (\<lambda>p. p = Submitted) (units s)"
    by (simp add: idx_set_def)
  with assms show ?thesis
    unfolding inv_q_def submit_def add_def by (simp add: idx_set_append)
qed

lemma inv_q_same:
  assumes "inv_q s" and "i < length (units s)"
    and "holds_slot p" and "holds_slot (units s ! i)"
    and "p \<noteq> Submitted"
  shows "inv_q (s\<lparr>units := (units s)[i := p]\<rparr>)"
proof -
  have a: "i \<in> idx_set holds_slot (units s)"
    using assms(2,4) by (rule idx_setI)
  have "units s ! i \<noteq> Submitted"
    using assms(4) by auto
  then have w: "i \<notin> idx_set (\<lambda>p. p = Submitted) (units s)"
    by (simp add: idx_set_def)
  show ?thesis
    using assms(1,2,3,5) a w unfolding inv_q_def
    by (simp add: idx_set_update insert_absorb)
qed

lemma inv_q_release:
  assumes "inv_q s" and "i < length (units s)"
    and "holds_slot (units s ! i)" and "\<not> holds_slot p" and "p \<noteq> Submitted"
  shows "inv_q \<lparr>queue = release (queue s) i, units = (units s)[i := p]\<rparr>"
proof -
  have l: "length (removeAll i (admitted (queue s))) \<le> MAX_CONCURRENT"
    using assms(1) length_removeAll_less_eq [of i "admitted (queue s)"]
    unfolding inv_q_def by linarith
  have "units s ! i \<noteq> Submitted"
    using assms(3) by auto
  then have w: "i \<notin> idx_set (\<lambda>p. p = Submitted) (units s)"
    by (simp add: idx_set_def)
  show ?thesis
    using assms l w unfolding inv_q_def release_def
    by (simp add: idx_set_update distinct_removeAll)
qed

lemma inv_q_admit:
  assumes "inv_q s" and "admit (queue s) = Some (i, q)" and "holds_slot p" and "p \<noteq> Submitted"
  shows "inv_q \<lparr>queue = q, units = (units s)[i := p]\<rparr>"
    and "i < length (units s)" and "units s ! i = Submitted"
proof -
  from assms(2) obtain rest where w: "waiting (queue s) = i # rest"
    and lt: "length (admitted (queue s)) < maxConcurrent (queue s)"
    and q: "q = (queue s)\<lparr>waiting := rest, admitted := admitted (queue s) @ [i]\<rparr>"
    by (auto simp: admit_def split: list.splits if_splits)
  have "i \<in> idx_set (\<lambda>p. p = Submitted) (units s)"
    using assms(1) w unfolding inv_q_def by (metis list.set_intros(1))
  then show i: "i < length (units s)" and sub: "units s ! i = Submitted"
    by (simp_all add: idx_set_def)
  have nr: "i \<notin> set rest" and dr: "distinct rest"
    using assms(1) w unfolding inv_q_def by auto
  have na: "i \<notin> set (admitted (queue s))"
    using assms(1) sub unfolding inv_q_def by (auto simp: idx_set_def)
  have r: "set rest = idx_set (\<lambda>p. p = Submitted) (units s) - {i}"
    using assms(1) w nr unfolding inv_q_def by auto
  show "inv_q \<lparr>queue = q, units = (units s)[i := p]\<rparr>"
    using assms(1,3,4) lt q i nr dr na r unfolding inv_q_def
    by (simp add: idx_set_update)
qed

lemma callback_Retry: "callback retries error result = Retry d r \<Longrightarrow> 0 < retries \<and> r = retries - 1"
  by (auto simp: callback_def Let_def split: option.splits if_splits)

lemma admission_cases:
  assumes "admission s = Some s'"
  obtains i q where "admit (queue s) = Some (i, q)"
    and "s' = \<lparr>queue = q, units = (units s)[i := InFlight MAX_RETRIES 0]\<rparr>"
  using assms by (auto simp: admission_def split: option.splits)

lemma fire_cases:
  assumes "fire i s = Some s'"
  obtains retries k where "i < length (units s)" and "units s ! i = Sleeping retries k"
    and "s' = s\<lparr>units := (units s)[i := InFlight retries k]\<rparr>"
  using assms by (auto simp: fire_def split: if_splits phase.splits)

lemma complete_cases:
  assumes "complete tr i s = Some s'"
  obtains (threw) retries k x where "i < length (units s)" and "units s ! i = InFlight retries k"
      and "tr i k = Threw x" and "s' = s\<lparr>units := (units s)[i := Ended (Pending x)]\<rparr>"
  | (settle) retries k out where "i < length (units s)" and "units s ! i = InFlight retries k"
      and "\<exists>error result. tr i k = Invoked error result"
      and "settled (Ended out)"
      and "s' = \<lparr>queue = release (queue s) i, units = (units s)[i := Ended out]\<rparr>"
  | (retry) retries k where "i < length (units s)" and "units s ! i = InFlight retries k"
      and "0 < retries"
      and "s' = s\<lparr>units := (units s)[i := Sleeping (retries - 1) (Suc k)]\<rparr>"
proof -
  from assms have i: "i < length (units s)"
    by (simp add: complete_def split: if_splits)
  from assms i obtain retries k where u: "units s ! i = InFlight retries k"
    by (auto simp: complete_def split: phase.splits)
  show thesis
  proof (cases "tr i k")
    case (Threw x)
    with assms i u show thesis by (intro threw [of retries k x]) (auto simp: complete_def)
  next
    case (Invoked error result)
    show thesis
    proof (cases "callback retries error result")
      case (Resolve v)
      with assms i u Invoked show thesis
        by (intro settle [of retries k "Resolved v"]) (auto simp: complete_def)
    next
      case (Reject e)
      with assms i u Invoked show thesis
        by (intro settle [of retries k "Rejected e"]) (auto simp: complete_def)
    next
      case (Retry d r)
      with assms i u Invoked callback_Retry [OF Retry] show thesis
        by (intro retry [of retries k]) (auto simp: complete_def)
    qed
  qed
qed

lemma settled_not_slot: "settled p \<Longrightarrow> \<not> holds_slot p \<and> p \<noteq> Submitted"
  by (induction p rule: settled.induct) auto

lemma inv_q_exec:
  assumes "inv_q s" and "exec tr a s = Some s'"
  shows "inv_q s'"
proof (cases a)
  case Submit
  with assms show ?thesis by (auto simp: exec_def inv_q_submit)
next
  case Admit
  with assms(2) have "admission s = Some s'" by (simp add: exec_def)
  then show ?thesis
    by (rule admission_cases) (use assms(1) in \<open>simp add: inv_q_admit(1)\<close>)
next
  case (Complete i)
  with assms(2) have "complete tr i s = Some s'" by (simp add: exec_def)
  then show ?thesis
  proof (cases rule: complete_cases)
    case (threw retries k x)
    with assms(1) show ?thesis by (simp add: inv_q_same)
  next
    case (settle retries k out)
    with assms(1) settled_not_slot [OF settle(4)] show ?thesis
      by (simp add: inv_q_release)
  next
    case (retry retries k)
    with assms(1) show ?thesis by (simp add: inv_q_same)
  qed
next
  case (Fire i)
  with assms(2) have "fire i s = Some s'" by (simp add: exec_def)
  then show ?thesis
    by (rule fire_cases) (use assms(1) in \<open>simp add: inv_q_same\<close>)
qed

lemma inv_q_run: "run tr as s = Some s' \<Longrightarrow> inv_q s \<Longrightarrow> inv_q s'"
  by (induction as arbitrary: s) (auto split: option.splits dest: inv_q_exec)

lemma in_flight_le_admitted:
  assumes "inv_q s"
  shows "in_flight s \<le> length (admitted (queue s))"
proof -
  have sub: "idx_set in_flight_phase (units s) \<subseteq> idx_set holds_slot (units s)"
  proof
    fix i assume "i \<in> idx_set in_flight_phase (units s)"
    then have "i < length (units s)" and "in_flight_phase (units s ! i)"
      by (simp_all add: idx_set_def)
    moreover from this(2) have "holds_slot (units s ! i)"
      by (cases "units s ! i") auto
    ultimately show "i \<in> idx_set holds_slot (units s)"
      by (simp add: idx_set_def)
  qed
  have "in_flight s = card (idx_set in_flight_phase (units s))"
    by (simp add: in_flight_def idx_set_def length_filter_conv_card)
  also have "\<dots> \<le> card (set (admitted (queue s)))"
    using assms sub unfolding inv_q_def by (metis card_mono List.finite_set)
  also have "\<dots> = length (admitted (queue s))"
  proof -
    from assms have "distinct (admitted (queue s))" by (simp add: inv_q_def)
    then show ?thesis by (rule distinct_card)
  qed
  finally show ?thesis .
qed

lemma work_update:
  "i < length us \<Longrightarrow> work (us[i := p]) + weight (us ! i) = work us + weight p"
proof (induction us arbitrary: i)
  case Nil
  then show ?case by simp
next
  case (Cons u us)
  then show ?case
    by (cases i) (auto simp: work_def)
qed

lemma exec_decreases:
  assumes "inv_q s" and "exec tr a s = Some s'" and "a \<noteq> Submit"
  shows "work (units s') < work (units s) \<and> length (units s') = length (units s)"
proof (cases a)
  case Submit
  with assms(3) show ?thesis by simp
next
  case Admit
  with assms(2) have "admission s = Some s'" by (simp add: exec_def)
  then show ?thesis
  proof (rule admission_cases)
    fix i q
    assume a: "admit (queue s) = Some (i, q)"
      and s': "s' = \<lparr>queue = q, units = (units s)[i := InFlight MAX_RETRIES 0]\<rparr>"
    have i: "i < length (units s)" and u: "units s ! i = Submitted"
      using inv_q_admit(2,3) [OF assms(1) a, of "InFlight MAX_RETRIES 0"] by simp_all
    from work_update [OF i, of "InFlight MAX_RETRIES 0"] u s' show ?thesis
      by (simp add: MAX_RETRIES_def)
  qed
next
  case (Complete i)
  with assms(2) have "complete tr i s = Some s'" by (simp add: exec_def)
  then show ?thesis
  proof (cases rule: complete_cases)
    case (threw retries k x)
    with work_update [OF threw(1), of "Ended (Pending x)"] show ?thesis by simp
  next
    case (settle retries k out)
    with work_update [OF settle(1), of "Ended out"] show ?thesis by simp
  next
    case (retry retries k)
    with work_update [OF retry(1), of "Sleeping (retries - 1) (Suc k)"] show ?thesis by simp
  qed
next
  case (Fire i)
  with assms(2) have "fire i s = Some s'" by (simp add: exec_def)
  then show ?thesis
  proof (rule fire_cases)
    fix retries k
    assume i: "i < length (units s)" and u: "units s ! i = Sleeping retries k"
      and s': "s' = s\<lparr>units := (units s)[i := InFlight retries k]\<rparr>"
    from work_update [OF i, of "InFlight retries k"] u s' show ?thesis by simp
  qed
qed

lemma run_bounded:
  "run tr as s = Some s' \<Longrightarrow> inv_q s \<Longrightarrow>
   work (units s') + length (filter (\<lambda>a. a \<noteq> Submit) as) + 14 * length (units s)
     \<le> work (units s) + 14 * length (units s')"
proof (induction as arbitrary: s)
  case Nil
  then show ?case by simp
next
  case (Cons a as)
  from Cons.prems(1) obtain m where e: "exec tr a s = Some m" and r: "run tr as m = Some s'"
    by (auto split: option.splits)
  have im: "inv_q m" using inv_q_exec [OF Cons.prems(2) e] .
  note ih = Cons.IH [OF r im]
  show ?case
  proof (cases "a = Submit")
    case True
    with e have "m = submit s" by (simp add: exec_def)
    then have "work (units m) = work (units s) + 14" and "length (units m) = length (units s) + 1"
      by (simp_all add: submit_def work_def)
    with ih True show ?thesis by simp
  next
    case False
    from exec_decreases [OF Cons.prems(2) e False] ih False show ?thesis by simp
  qed
qed

lemma no_pending_exec:
  assumes "no_pending s" and "exec tr a s = Some s'"
    and "\<forall>i k. \<exists>error result. tr i k = Invoked error result"
  shows "no_pending s'"
proof -
  have upd: "no_pending (t\<lparr>units := (units s)[i := p]\<rparr>)"
    if "\<forall>x. p \<noteq> Ended (Pending x)" for p i and t :: "'a system"
    using assms(1) that set_update_subset_insert [of "units s" i p]
    unfolding no_pending_def by auto
  show ?thesis
  proof (cases a)
    case Submit
    with assms(1,2) show ?thesis by (auto simp: exec_def submit_def no_pending_def)
  next
    case Admit
    with assms(2) have "admission s = Some s'" by (simp add: exec_def)
    then show ?thesis
      by (rule admission_cases) (use upd [of "InFlight MAX_RETRIES 0"] in \<open>simp add: no_pending_def\<close>)
  next
    case (Complete i)
    with assms(2) have "complete tr i s = Some s'" by (simp add: exec_def)
    then show ?thesis
    proof (cases rule: complete_cases)
      case (threw retries k x)
      with assms(3) show ?thesis by (metis completion.distinct(1))
    next
      case (settle retries k out)
      then have "\<forall>x. Ended out \<noteq> Ended (Pending x)" by auto
      from upd [where p = "Ended out" and t = s and i = i, OF this] settle(5)
      show ?thesis by (simp add: no_pending_def)
    next
      case (retry retries k)
      with upd [where p = "Sleeping (retries - 1) (Suc k)" and t = s and i = i]
      show ?thesis by simp
    qed
  next
    case (Fire i)
    with assms(2) have "fire i s = Some s'" by (simp add: exec_def)
    then show ?thesis
      by (rule fire_cases) (use upd in \<open>simp\<close>)
  qed
qed

lemma no_pending_run:
  "run tr as s = Some s' \<Longrightarrow> no_pending s \<Longrightarrow>
   \<forall>i k. \<exists>error result. tr i k = Invoked error result \<Longrightarrow> no_pending s'"
  by (induction as arbitrary: s) (auto split: option.splits dest: no_pending_exec)


lemma complete_enabled:
  "j < length (units s) \<Longrightarrow> units s ! j = InFlight r k \<Longrightarrow> \<exists>s'. complete tr j s = Some s'"
  by (simp add: complete_def split: completion.splits action.splits)

lemma fire_enabled:
  "j < length (units s) \<Longrightarrow> units s ! j = Sleeping r k \<Longrightarrow> \<exists>s'. fire j s = Some s'"
  by (simp add: fire_def)

lemma progress:
  assumes "inv_q s" and "no_pending s" and "i < length (units s)" and "\<not> settled (units s ! i)"
  shows "\<exists>a s'. a \<noteq> Submit \<and> exec tr a s = Some s'"
proof (cases "\<exists>j < length (units s). holds_slot (units s ! j)")
  case True
  then obtain j where j: "j < length (units s)" and h: "holds_slot (units s ! j)" by blast
  from j assms(2) have np: "\<forall>x. units s ! j \<noteq> Ended (Pending x)"
    unfolding no_pending_def by (metis nth_mem)
  show ?thesis
  proof (cases "units s ! j")
    case Submitted
    with h show ?thesis by simp
  next
    case (InFlight r k)
    from complete_enabled [OF j this] obtain s' where "exec tr (Complete j) s = Some s'"
      by (auto simp: exec_def)
    then show ?thesis by blast
  next
    case (Sleeping r k)
    from fire_enabled [OF j this] obtain s' where "exec tr (Fire j) s = Some s'"
      by (auto simp: exec_def)
    then show ?thesis by blast
  next
    case (Ended out)
    with h np show ?thesis by (cases out) auto
  qed
next
  case False
  then have e: "idx_set holds_slot (units s) = {}"
    by (auto simp: idx_set_def)
  with assms(1) have adm: "admitted (queue s) = []"
    by (simp add: inv_q_def)
  from False assms(3) have nh: "\<not> holds_slot (units s ! i)" by blast
  have "units s ! i = Submitted"
  proof (cases "units s ! i")
    case (Ended out)
    with nh assms(4) show ?thesis by (cases out) auto
  qed (use nh in auto)
  with assms(1,3) have "i \<in> set (waiting (queue s))"
    by (simp add: inv_q_def idx_set_def)
  then obtain t rest where "waiting (queue s) = t # rest"
    by (cases "waiting (queue s)") auto
  with adm assms(1) obtain s' where "exec tr Admit s = Some s'"
    by (auto simp: exec_def admission_def admit_def inv_q_def MAX_CONCURRENT_def)
  then show ?thesis by blast
qed

text \<open>
  What holds of the queue whatever the calls do. In every state that the wrapper reaches
  from its construction, by any sequence of submissions, admissions, completions and
  timers, at most \<open>MAX_CONCURRENT\<close> physical calls are in flight. The steps other than
  submissions number at most 14 for each submitted unit, so no run goes on for ever. A
  retry stays inside its slot: neither the completion that sets the timer nor the timer
  that repeats the call changes the queue. And when every physical call ends by invoking
  the callback, a state in which some unit has neither resolved nor rejected always has
  a further step.
\<close>

theorem bounded_concurrency:
  assumes "run tr as initial = Some s"
  shows "in_flight s \<le> MAX_CONCURRENT
    \<and> length (filter (\<lambda>a. a \<noteq> Submit) as) \<le> 14 * length (units s)
    \<and> ((\<forall>i k. \<exists>error result. tr i k = Invoked error result) \<longrightarrow>
          (\<forall>i < length (units s). settled (units s ! i))
          \<or> (\<exists>a s'. a \<noteq> Submit \<and> exec tr a s = Some s'))
    \<and> (\<forall>i s'. fire i s = Some s' \<longrightarrow> queue s' = queue s)
    \<and> (\<forall>i s' retries k. complete tr i s = Some s' \<and> units s' ! i = Sleeping retries k
          \<longrightarrow> queue s' = queue s)"
proof (intro conjI impI allI)
  have inv: "inv_q s"
    using inv_q_run [OF assms inv_q_initial] .
  from in_flight_le_admitted [OF inv] inv show "in_flight s \<le> MAX_CONCURRENT"
    by (simp add: inv_q_def)
  from run_bounded [OF assms inv_q_initial]
  show "length (filter (\<lambda>a. a \<noteq> Submit) as) \<le> 14 * length (units s)"
    by (simp add: initial_def work_def)
  {
    assume tr: "\<forall>i k. \<exists>error result. tr i k = Invoked error result"
    have "no_pending (initial :: 'a system)"
      by (simp add: no_pending_def initial_def)
    from no_pending_run [OF assms this tr] have np: "no_pending s" .
    show "(\<forall>i < length (units s). settled (units s ! i))
        \<or> (\<exists>a s'. a \<noteq> Submit \<and> exec tr a s = Some s')"
      using progress [OF inv np] by blast
  }
  {
    fix i s'
    assume "fire i s = Some s'"
    then show "queue s' = queue s"
      by (rule fire_cases) simp
  }
  {
    fix i s' retries k
    assume h: "complete tr i s = Some s' \<and> units s' ! i = Sleeping retries k"
    then have "complete tr i s = Some s'" ..
    then show "queue s' = queue s"
    proof (cases rule: complete_cases)
      case (settle r j out)
      with h show ?thesis by simp
    qed simp_all
  }
qed

theorem bounded_concurrency_witness:
  "in_flight (the (run first_fails_once forty_admitted initial)) \<le> MAX_CONCURRENT
   \<and> in_flight (the (run first_fails_once forty_admitted initial)) = 29
   \<and> exec first_fails_once Admit (the (run first_fails_once forty_admitted initial)) = None
   \<and> units (the (run first_fails_once forty_retrying initial)) ! 0 = Sleeping 5 1
   \<and> in_flight (the (run first_fails_once forty_retrying initial)) = 28
   \<and> exec first_fails_once Admit (the (run first_fails_once forty_retrying initial)) = None
   \<and> length (units (the (run first_fails_once forty_done initial))) = 40
   \<and> list_all settled (units (the (run first_fails_once forty_done initial)))
   \<and> (\<forall>i k. \<exists>error result. first_fails_once i k = Invoked error result)"
proof -
  have "run first_fails_once forty_admitted initial \<noteq> None"
    by code_simp
  then obtain s where r: "run first_fails_once forty_admitted initial = Some s"
    by blast
  from bounded_concurrency [OF r] have "in_flight s \<le> MAX_CONCURRENT"
    by (rule conjunct1)
  with r have a: "in_flight (the (run first_fails_once forty_admitted initial)) \<le> MAX_CONCURRENT"
    by (simp only: option.sel)
  have b: "in_flight (the (run first_fails_once forty_admitted initial)) = 29"
    by code_simp
  have c: "exec first_fails_once Admit (the (run first_fails_once forty_admitted initial)) = None"
    by code_simp
  have d: "units (the (run first_fails_once forty_retrying initial)) ! 0 = Sleeping 5 1"
    by code_simp
  have e: "in_flight (the (run first_fails_once forty_retrying initial)) = 28"
    by code_simp
  have f: "exec first_fails_once Admit (the (run first_fails_once forty_retrying initial)) = None"
    by code_simp
  have g: "length (units (the (run first_fails_once forty_done initial))) = 40"
    by code_simp
  have h: "list_all settled (units (the (run first_fails_once forty_done initial)))"
    by code_simp
  have i: "\<forall>i k. \<exists>error result. first_fails_once i k = Invoked error result"
    by (simp add: first_fails_once_def)
  from a b c d e f g h i show ?thesis by blast
qed

subsection \<open>Uploads that never settle keep their slots\<close>

text \<open>
  C6, at thirty uploads of which the first twenty-nine meet a connection error. Each of
  the twenty-nine calls ends in the \<open>TypeError\<close> of \<open>_buildError\<close>, its promise stays
  pending and keeps its slot. No call is in flight, yet the queue admits nothing, no
  completion and no timer is left, and the thirtieth upload, whose call would succeed,
  waits in the queue for ever: it neither resolves nor rejects.
\<close>

theorem hung_uploads_starve_the_queue:
  "uploads_offline 0 0 = Threw TypeError
   \<and> uploads_offline 29 0 = Invoked None (Some (JObject [(''id'', JNumber 12)]))
   \<and> length (units (the (run uploads_offline thirty_uploads initial))) = 30
   \<and> take 29 (units (the (run uploads_offline thirty_uploads initial)))
       = replicate 29 (Ended (Pending TypeError))
   \<and> units (the (run uploads_offline thirty_uploads initial)) ! 29 = Submitted
   \<and> in_flight (the (run uploads_offline thirty_uploads initial)) = 0
   \<and> exec uploads_offline Admit (the (run uploads_offline thirty_uploads initial)) = None
   \<and> (\<forall>i. exec uploads_offline (Complete i) (the (run uploads_offline thirty_uploads initial))
              = None
          \<and> exec uploads_offline (Fire i) (the (run uploads_offline thirty_uploads initial))
              = None)"
proof -
  define s where "s = the (run uploads_offline thirty_uploads initial)"
  have a: "uploads_offline 0 0 = Threw TypeError"
    by code_simp
  have b: "uploads_offline 29 0 = Invoked None (Some (JObject [(''id'', JNumber 12)]))"
    by code_simp
  have c: "length (units s) = 30"
    unfolding s_def by code_simp
  have d: "take 29 (units s) = replicate 29 (Ended (Pending TypeError))"
    unfolding s_def by code_simp
  have e: "units s ! 29 = Submitted"
    unfolding s_def by code_simp
  have f: "in_flight s = 0"
    unfolding s_def by code_simp
  have g: "exec uploads_offline Admit s = None"
    unfolding s_def by code_simp
  have h: "list_all (\<lambda>i. exec uploads_offline (Complete i) s = None
      \<and> exec uploads_offline (Fire i) s = None) [0..<30]"
    unfolding s_def by code_simp
  have "exec uploads_offline (Complete i) s = None \<and> exec uploads_offline (Fire i) s = None"
    for i
  proof (cases "i < 30")
    case True
    then have "i \<in> set [0..<30]" by simp
    with h show ?thesis unfolding list_all_iff by blast
  next
    case False
    with c show ?thesis by (simp add: exec_def complete_def fire_def)
  qed
  with a b c d e f g show ?thesis unfolding s_def by blast
qed

end
